theory Spec2Isabelle
  imports Main
begin

section \<open>Window manager (src/os/window-manager.ts)\<close>

text \<open>
  The zustand store of \<^verbatim>\<open>useWindowManager\<close> holds the list \<^verbatim>\<open>windows\<close> and the counter
  \<^verbatim>\<open>nextZIndex\<close>. Every action is a function from the store's state to its next state.
  The numbers of a window's geometry are only copied, or built from small integer
  constants, and are modelled as integers; the counter, which grows, is a double whose
  \<^verbatim>\<open>+ 1\<close> is modelled by \<open>plusOne\<close> below. The
  \<^verbatim>\<open>component\<close> of a window is an opaque React node: a type parameter. Optional fields
  (\<^verbatim>\<open>prevX?: number\<close>) are \<open>option\<close>s, \<^verbatim>\<open>undefined\<close> being \<open>None\<close>. The write to
  localStorage in \<^verbatim>\<open>saveToStorage\<close> is wrapped in try/catch there and never read back by the
  store, so it is no part of the state.

  The fields \<^verbatim>\<open>id\<close>, \<^verbatim>\<open>x\<close> and \<^verbatim>\<open>y\<close> carry the suffix \<open>_w\<close>: \<open>id\<close> is a constant of HOL and
  one-letter field names would capture the variables of every statement.
\<close>

record 'c WindowState =
  id_w :: string
  title :: string
  component :: 'c
  x_w :: int
  y_w :: int
  width :: int
  height :: int
  minimized :: bool
  maximized :: bool
  zIndex :: int
  prevX :: "int option"
  prevY :: "int option"
  prevWidth :: "int option"
  prevHeight :: "int option"

text \<open>
  \<^verbatim>\<open>options?: Partial<Omit<WindowState, "id" | "title" | "component">>\<close>: every remaining
  field of a window, each optional.
\<close>

record WindowOptions =
  opt_x :: "int option"
  opt_y :: "int option"
  opt_width :: "int option"
  opt_height :: "int option"
  opt_minimized :: "bool option"
  opt_maximized :: "bool option"
  opt_zIndex :: "int option"
  opt_prevX :: "int option"
  opt_prevY :: "int option"
  opt_prevWidth :: "int option"
  opt_prevHeight :: "int option"

text \<open>The default \<^verbatim>\<open>options = {}\<close>.\<close>

definition noOptions :: WindowOptions where
  "noOptions = \<lparr>opt_x = None, opt_y = None, opt_width = None, opt_height = None,
     opt_minimized = None, opt_maximized = None, opt_zIndex = None, opt_prevX = None,
     opt_prevY = None, opt_prevWidth = None, opt_prevHeight = None\<rparr>"

record 'c WindowManagerState =
  windows :: "'c WindowState list"
  nextZIndex :: int

definition initialState :: "'c WindowManagerState" where
  "initialState = \<lparr>windows = [], nextZIndex = 1000\<rparr>"

text \<open>\<^verbatim>\<open>a ?? b\<close>: \<open>b\<close> when \<open>a\<close> is undefined.\<close>

definition nullish :: "'a option \<Rightarrow> 'a \<Rightarrow> 'a" where
  "nullish a b = (case a of Some v \<Rightarrow> v | None \<Rightarrow> b)"

text \<open>
  \<^verbatim>\<open>nextZIndex + 1\<close> on a double. The counter starts at 1000 and only ever has 1 added to
  it. Up to \<open>2 ^ 53 = 9007199254740992\<close> the sum is exact; \<open>2 ^ 53 + 1\<close> is no double and
  rounds back to \<open>2 ^ 53\<close>, so from there on the counter stays where it is.
\<close>

definition maxExact :: int where
  "maxExact = 9007199254740992"

definition plusOne :: "int \<Rightarrow> int" where
  "plusOne n = (if n < maxExact then n + 1 else n)"

definition getWindow :: "string \<Rightarrow> 'c WindowManagerState \<Rightarrow> 'c WindowState option" where
  "getWindow i s = List.find (\<lambda>w. id_w w = i) (windows s)"

definition closeWindow :: "string \<Rightarrow> 'c WindowManagerState \<Rightarrow> 'c WindowManagerState" where
  "closeWindow i s = s\<lparr>windows := filter (\<lambda>w. id_w w \<noteq> i) (windows s)\<rparr>"

definition minimizeWindow :: "string \<Rightarrow> 'c WindowManagerState \<Rightarrow> 'c WindowManagerState" where
  "minimizeWindow i s =
     s\<lparr>windows := map (\<lambda>w. if id_w w = i then w\<lparr>minimized := True\<rparr> else w) (windows s)\<rparr>"

definition restoreWindow :: "string \<Rightarrow> 'c WindowManagerState \<Rightarrow> 'c WindowManagerState" where
  "restoreWindow i s =
     (let nz = nextZIndex s in
      s\<lparr>windows :=
          map (\<lambda>w. if id_w w = i then w\<lparr>minimized := False, zIndex := nz\<rparr> else w) (windows s),
        nextZIndex := plusOne nz\<rparr>)"

definition bringToFront :: "string \<Rightarrow> 'c WindowManagerState \<Rightarrow> 'c WindowManagerState" where
  "bringToFront i s =
     (let nz = nextZIndex s in
      s\<lparr>windows := map (\<lambda>w. if id_w w = i then w\<lparr>zIndex := nz\<rparr> else w) (windows s),
        nextZIndex := plusOne nz\<rparr>)"

definition openWindow ::
  "string \<Rightarrow> string \<Rightarrow> 'c \<Rightarrow> WindowOptions \<Rightarrow> 'c WindowManagerState \<Rightarrow> 'c WindowManagerState"
where
  "openWindow i t c options s =
     (case List.find (\<lambda>w. id_w w = i) (windows s) of
        Some existing \<Rightarrow>
          (if minimized existing then restoreWindow i s else bringToFront i s)
      | None \<Rightarrow>
          (let nz = nextZIndex s;
               newWindow = \<lparr>id_w = i, title = t, component = c,
                 x_w = nullish (opt_x options) (100 + int (length (windows s)) * 30),
                 y_w = nullish (opt_y options) (100 + int (length (windows s)) * 30),
                 width = nullish (opt_width options) 600,
                 height = nullish (opt_height options) 400,
                 minimized = False, maximized = False, zIndex = nz,
                 prevX = None, prevY = None, prevWidth = None, prevHeight = None\<rparr>
           in s\<lparr>windows := windows s @ [newWindow], nextZIndex := plusOne nz\<rparr>))"

text \<open>
  \<^verbatim>\<open>toggleMaximize\<close> reads \<^verbatim>\<open>window.innerWidth\<close> and \<^verbatim>\<open>window.innerHeight\<close> (1920 and 1080
  where there is no \<^verbatim>\<open>window\<close>): the two viewport numbers are parameters of the model.
\<close>

definition toggleOne :: "int \<Rightarrow> int \<Rightarrow> 'c WindowState \<Rightarrow> 'c WindowState" where
  "toggleOne viewportWidth viewportHeight w =
     (if maximized w then
        w\<lparr>maximized := False,
          x_w := nullish (prevX w) 100,
          y_w := nullish (prevY w) 100,
          width := nullish (prevWidth w) 600,
          height := nullish (prevHeight w) 400,
          prevX := None, prevY := None, prevWidth := None, prevHeight := None\<rparr>
      else
        w\<lparr>maximized := True,
          prevX := Some (x_w w), prevY := Some (y_w w),
          prevWidth := Some (width w), prevHeight := Some (height w),
          x_w := 0, y_w := 0, width := viewportWidth, height := viewportHeight\<rparr>)"

definition toggleMaximize ::
  "int \<Rightarrow> int \<Rightarrow> string \<Rightarrow> 'c WindowManagerState \<Rightarrow> 'c WindowManagerState"
where
  "toggleMaximize viewportWidth viewportHeight i s =
     (case List.find (\<lambda>w. id_w w = i) (windows s) of
        None \<Rightarrow> s
      | Some targetWindow \<Rightarrow>
          s\<lparr>windows :=
              map (\<lambda>w. if id_w w \<noteq> i then w else toggleOne viewportWidth viewportHeight w)
                (windows s)\<rparr>)"

definition updatePosition ::
  "string \<Rightarrow> int \<Rightarrow> int \<Rightarrow> 'c WindowManagerState \<Rightarrow> 'c WindowManagerState"
where
  "updatePosition i x y s =
     s\<lparr>windows := map (\<lambda>w. if id_w w = i then w\<lparr>x_w := x, y_w := y\<rparr> else w) (windows s)\<rparr>"

definition updateSize ::
  "string \<Rightarrow> int \<Rightarrow> int \<Rightarrow> 'c WindowManagerState \<Rightarrow> 'c WindowManagerState"
where
  "updateSize i w' h' s =
     s\<lparr>windows :=
         map (\<lambda>w. if id_w w = i then w\<lparr>width := w', height := h'\<rparr> else w) (windows s)\<rparr>"

section \<open>Virtual file system (class VirtualFileSystem)\<close>

text \<open>
  The store is a JavaScript \<^verbatim>\<open>Map<string, FileMetadata>\<close>, read from and written back to
  localStorage around every operation. A \<^verbatim>\<open>Map\<close> iterates in insertion order and holds
  each key once, so it is modelled as an association list whose keys are distinct
  (\<open>wf_storage\<close>): \<^verbatim>\<open>get\<close> is \<open>map_of\<close>, \<^verbatim>\<open>has\<close> is \<open>map_has\<close>, \<^verbatim>\<open>set\<close> overwrites in place
  or appends (\<open>map_set\<close>), \<^verbatim>\<open>delete\<close> removes the key (\<open>map_delete\<close>). Strings are lists of
  characters, one per code unit. \<^verbatim>\<open>Date.now()\<close> is a parameter \<open>now\<close> of the operations that
  read the clock. Each operation takes the store and returns its result together with
  the store it leaves behind; \<^verbatim>\<open>throw new Error(msg)\<close> is the value \<open>Inl (Error msg)\<close>.
\<close>

record FileMetadata =
  name :: string
  path :: string
  content :: string
  size_f :: int
  modified :: int
  created :: int
  isFolder :: bool

type_synonym Storage = "(string \<times> FileMetadata) list"

datatype js_error = Error string

definition wf_storage :: "('k \<times> 'v) list \<Rightarrow> bool" where
  "wf_storage files = distinct (map fst files)"

definition map_has :: "('k \<times> 'v) list \<Rightarrow> 'k \<Rightarrow> bool" where
  "map_has files k = (map_of files k \<noteq> None)"

fun map_set :: "'k \<Rightarrow> 'v \<Rightarrow> ('k \<times> 'v) list \<Rightarrow> ('k \<times> 'v) list" where
  "map_set k v [] = [(k, v)]"
| "map_set k v (kv # kvs) = (if fst kv = k then (k, v) # kvs else kv # map_set k v kvs)"

definition map_delete :: "'k \<Rightarrow> ('k \<times> 'v) list \<Rightarrow> ('k \<times> 'v) list" where
  "map_delete k kvs = filter (\<lambda>kv. fst kv \<noteq> k) kvs"

text \<open>
  \<^verbatim>\<open>path.replace(/^\/+|\/+$/g, '')\<close>: the leading run and the trailing run of slashes are
  removed; \<^verbatim>\<open>!path\<close> holds of the empty string.
\<close>

definition normalizePath :: "string \<Rightarrow> string" where
  "normalizePath p =
     (if p = [] then []
      else rev (dropWhile (\<lambda>c. c = CHR ''/'') (rev (dropWhile (\<lambda>c. c = CHR ''/'') p))))"

definition startsWith :: "string \<Rightarrow> string \<Rightarrow> bool" where
  "startsWith s p = (take (length p) s = p)"

text \<open>\<^verbatim>\<open>s.split("/")\<close> and \<^verbatim>\<open>parts.join("/")\<close>.\<close>

fun split_str :: "char \<Rightarrow> string \<Rightarrow> string list" where
  "split_str c [] = [[]]"
| "split_str c (x # xs) =
     (if x = c then [] # split_str c xs
      else (case split_str c xs of [] \<Rightarrow> [[x]] | p # ps \<Rightarrow> (x # p) # ps))"

fun join_str :: "string \<Rightarrow> string list \<Rightarrow> string" where
  "join_str sep [] = []"
| "join_str sep [p] = p"
| "join_str sep (p # q # ps) = p @ sep @ join_str sep (q # ps)"

text \<open>
  The path an entry is stored under, as \<^verbatim>\<open>writeFile\<close> and \<^verbatim>\<open>createFolder\<close> compute it:
  \<^verbatim>\<open>folder ? `${this.normalizePath(folder)}/${filename}` : filename\<close>.
\<close>

definition fullPathOf :: "string \<Rightarrow> string \<Rightarrow> string" where
  "fullPathOf filename folder =
     (if folder \<noteq> [] then normalizePath folder @ ''/'' @ filename else filename)"

text \<open>
  \<^verbatim>\<open>created: existing?.created || now\<close>: the old stamp unless there is none or it is falsy,
  that is 0.
\<close>

definition writeFile :: "string \<Rightarrow> string \<Rightarrow> string \<Rightarrow> int \<Rightarrow> Storage \<Rightarrow> Storage" where
  "writeFile filename cont folder now files =
     (let fullPath = fullPathOf filename folder;
          existing = map_of files fullPath
      in map_set fullPath
           \<lparr>name = filename, path = fullPath, content = cont,
            size_f = int (length cont), modified = now,
            created = (case existing of
                         None \<Rightarrow> now
                       | Some e \<Rightarrow> if created e \<noteq> 0 then created e else now),
            isFolder = False\<rparr>
           files)"

definition createFolder :: "string \<Rightarrow> string \<Rightarrow> int \<Rightarrow> Storage \<Rightarrow> js_error + Storage" where
  "createFolder folderName parentFolder now files =
     (let fullPath = fullPathOf folderName parentFolder in
      if map_has files fullPath then Inl (Error ''Folder already exists'')
      else Inr (map_set fullPath
                  \<lparr>name = folderName, path = fullPath, content = [],
                   size_f = 0, modified = now, created = now, isFolder = True\<rparr>
                  files))"

text \<open>
  The loop \<^verbatim>\<open>readFile\<close> and \<^verbatim>\<open>deleteFile\<close> fall back to when the normalized path is no key:
  the first entry, in the store's order, whose key matches.
\<close>

definition findByIteration ::
  "string \<Rightarrow> string \<Rightarrow> Storage \<Rightarrow> (string \<times> FileMetadata) option"
where
  "findByIteration p normalizedPath files =
     List.find (\<lambda>kv. normalizePath (fst kv) = normalizedPath \<or> fst kv = normalizedPath
                        \<or> fst kv = p) files"

definition readFile :: "string \<Rightarrow> Storage \<Rightarrow> string option" where
  "readFile p files =
     (let normalizedPath = normalizePath p;
          file = (case map_of files normalizedPath of
                    Some f \<Rightarrow> Some f
                  | None \<Rightarrow> map_option snd (findByIteration p normalizedPath files))
      in case file of
           Some f \<Rightarrow> if \<not> isFolder f then Some (content f) else None
         | None \<Rightarrow> None)"

text \<open>
  \<^verbatim>\<open>filePath === actualPath || filePath.startsWith(actualPath + "/")\<close>, the test by which
  \<^verbatim>\<open>deleteFile\<close>, \<^verbatim>\<open>moveFile\<close> and \<^verbatim>\<open>renameFile\<close> pick a folder and what lies below it.
\<close>

definition matchesFolder :: "string \<Rightarrow> string \<Rightarrow> bool" where
  "matchesFolder actualPath filePath =
     (filePath = actualPath \<or> startsWith filePath (actualPath @ ''/''))"

text \<open>
  \<^verbatim>\<open>deleteFile\<close> gives up with \<^verbatim>\<open>false\<close> on \<^verbatim>\<open>!file || !actualPath\<close>; the empty string is
  falsy, so an entry resolved at the empty path is reported as not found.
\<close>

definition deleteFile :: "string \<Rightarrow> Storage \<Rightarrow> bool \<times> Storage" where
  "deleteFile p files =
     (let normalizedPath = normalizePath p;
          found = (if map_has files normalizedPath
                   then (map_of files normalizedPath, Some normalizedPath)
                   else (case findByIteration p normalizedPath files of
                           Some kv \<Rightarrow> (Some (snd kv), Some (fst kv))
                         | None \<Rightarrow> (None, None)))
      in case found of
           (Some file, Some actualPath) \<Rightarrow>
             if actualPath = [] then (False, files)
             else if isFolder file then
               (let toDelete = map fst (filter (\<lambda>kv. matchesFolder actualPath (fst kv)) files)
                in (True, foldl (\<lambda>fs k. map_delete k fs) files toDelete))
             else (True, map_delete actualPath files)
         | _ \<Rightarrow> (False, files))"

text \<open>
  The new key of an entry at or below \<open>normalizedSource\<close> once the folder goes to
  \<open>newPath\<close>: \<^verbatim>\<open>relativePath ? `${newPath}/${relativePath}` : newPath\<close>, with
  \<^verbatim>\<open>relativePath = path === normalizedSource ? "" : path.substring(normalizedSource.length + 1)\<close>.
\<close>

definition newFilePath :: "string \<Rightarrow> string \<Rightarrow> string \<Rightarrow> string" where
  "newFilePath normalizedSource newPath p =
     (let relativePath = (if p = normalizedSource then []
                          else drop (length normalizedSource + 1) p)
      in if relativePath \<noteq> [] then newPath @ ''/'' @ relativePath else newPath)"

text \<open>The list \<^verbatim>\<open>toMove\<close> (\<^verbatim>\<open>toRename\<close>) of \<^verbatim>\<open>{ oldPath, newPath, metadata }\<close>.\<close>

definition collectMoves ::
  "string \<Rightarrow> string \<Rightarrow> Storage \<Rightarrow> (string \<times> string \<times> FileMetadata) list"
where
  "collectMoves normalizedSource newPath files =
     map (\<lambda>kv. (fst kv, newFilePath normalizedSource newPath (fst kv), snd kv))
       (filter (\<lambda>kv. matchesFolder normalizedSource (fst kv)) files)"

definition deleteOld :: "(string \<times> string \<times> FileMetadata) list \<Rightarrow> Storage \<Rightarrow> Storage" where
  "deleteOld toMove files = foldl (\<lambda>fs m. map_delete (fst m) fs) files toMove"

definition moveTarget :: "string \<Rightarrow> FileMetadata \<Rightarrow> string" where
  "moveTarget normalizedTarget sourceFile =
     (if normalizedTarget \<noteq> [] then normalizedTarget @ ''/'' @ name sourceFile
      else name sourceFile)"

definition moveFile :: "string \<Rightarrow> string \<Rightarrow> Storage \<Rightarrow> bool \<times> Storage" where
  "moveFile sourcePath targetFolder files =
     (let normalizedSource = normalizePath sourcePath;
          normalizedTarget = normalizePath targetFolder
      in case map_of files normalizedSource of
           None \<Rightarrow> (False, files)
         | Some sourceFile \<Rightarrow>
             (let newPath = moveTarget normalizedTarget sourceFile in
              if map_has files newPath then (False, files)
              else if isFolder sourceFile then
                (let toMove = collectMoves normalizedSource newPath files
                 in (True,
                     foldl (\<lambda>fs m. map_set (fst (snd m)) ((snd (snd m))\<lparr>path := fst (snd m)\<rparr>) fs)
                       (deleteOld toMove files) toMove))
              else (True, map_set newPath (sourceFile\<lparr>path := newPath\<rparr>)
                            (map_delete normalizedSource files))))"

text \<open>
  \<^verbatim>\<open>pathParts[pathParts.length - 1] = newName; newPath = pathParts.join("/")\<close>
  (\<^verbatim>\<open>split\<close> never returns the empty array, so the index is in range).
\<close>

definition renameTarget :: "string \<Rightarrow> string \<Rightarrow> string" where
  "renameTarget normalizedPath newName =
     (let pathParts = split_str CHR ''/'' normalizedPath
      in join_str ''/'' (pathParts[length pathParts - 1 := newName]))"

definition renameFile :: "string \<Rightarrow> string \<Rightarrow> Storage \<Rightarrow> bool \<times> Storage" where
  "renameFile p newName files =
     (let normalizedPath = normalizePath p in
      case map_of files normalizedPath of
        None \<Rightarrow> (False, files)
      | Some file \<Rightarrow>
          (let newPath = renameTarget normalizedPath newName in
           if map_has files newPath then (False, files)
           else if isFolder file then
             (let toRename = collectMoves normalizedPath newPath files
              in (True,
                  foldl (\<lambda>fs m. map_set (fst (snd m))
                           ((snd (snd m))\<lparr>path := fst (snd m),
                              name := (if fst (snd m) = newPath then newName
                                       else name (snd (snd m)))\<rparr>) fs)
                    (deleteOld toRename files) toRename))
           else (True, map_set newPath (file\<lparr>path := newPath, name := newName\<rparr>)
                         (map_delete normalizedPath files))))"

definition exists_path :: "string \<Rightarrow> Storage \<Rightarrow> bool" where
  "exists_path p files = map_has files (normalizePath p)"

section \<open>Reachable window-manager states\<close>

text \<open>
  The states the store can be in: the initial one, and what the eight actions make of a
  reachable state, with any arguments.
\<close>

inductive reachable :: "'c WindowManagerState \<Rightarrow> bool" where
  reach_init: "reachable initialState"
| reach_open: "reachable s \<Longrightarrow> reachable (openWindow i t c options s)"
| reach_close: "reachable s \<Longrightarrow> reachable (closeWindow i s)"
| reach_minimize: "reachable s \<Longrightarrow> reachable (minimizeWindow i s)"
| reach_restore: "reachable s \<Longrightarrow> reachable (restoreWindow i s)"
| reach_toggle: "reachable s \<Longrightarrow> reachable (toggleMaximize vw vh i s)"
| reach_front: "reachable s \<Longrightarrow> reachable (bringToFront i s)"
| reach_position: "reachable s \<Longrightarrow> reachable (updatePosition i x y s)"
| reach_size: "reachable s \<Longrightarrow> reachable (updateSize i w h s)"

text \<open>
  The invariant of the reachable states: ids are unique, the counter lies between 1000
  and \<open>maxExact\<close>, and as long as it is below \<open>maxExact\<close> the z-indices are unique and
  every z-index handed out lies below the counter.
\<close>

definition wm_inv :: "'c WindowManagerState \<Rightarrow> bool" where
  "wm_inv s \<longleftrightarrow>
     distinct (map id_w (windows s)) \<and> 1000 \<le> nextZIndex s \<and> nextZIndex s \<le> maxExact \<and>
     (nextZIndex s < maxExact \<longrightarrow>
        distinct (map zIndex (windows s)) \<and> (\<forall>w \<in> set (windows s). zIndex w < nextZIndex s))"

section \<open>The stores the file system builds\<close>

text \<open>
  The store starts empty (\<^verbatim>\<open>getStorage\<close> returns a new Map when localStorage has no entry,
  as after \<^verbatim>\<open>clear\<close>) and is changed by the five mutating operations only.
  \<^verbatim>\<open>Date.now()\<close> counts the milliseconds since 1970 and is positive.
\<close>

inductive built :: "Storage \<Rightarrow> bool" where
  built_empty: "built []"
| built_write: "built files \<Longrightarrow> 0 < now \<Longrightarrow> built (writeFile filename cont folder now files)"
| built_folder: "built files \<Longrightarrow> 0 < now \<Longrightarrow>
     createFolder folderName parentFolder now files = Inr files' \<Longrightarrow> built files'"
| built_delete: "built files \<Longrightarrow> built (snd (deleteFile p files))"
| built_move: "built files \<Longrightarrow> built (snd (moveFile sourcePath targetFolder files))"
| built_rename: "built files \<Longrightarrow> built (snd (renameFile p newName files))"

text \<open>Every entry carries a created stamp other than 0.\<close>

definition stamped :: "Storage \<Rightarrow> bool" where
  "stamped files \<longleftrightarrow> (\<forall>kv \<in> set files. created (snd kv) \<noteq> 0)"

text \<open>A state with two open windows, for instances of the statements below.\<close>

definition twoWindows :: "unit WindowManagerState" where
  "twoWindows = openWindow ''w2'' ''Notes'' () noOptions
                  (openWindow ''w1'' ''Files'' () noOptions initialState)"

text \<open>A store with a folder, a file in it and a file beside it.\<close>

definition exampleFiles :: Storage where
  "exampleFiles =
     [(''docs'', \<lparr>name = ''docs'', path = ''docs'', content = [], size_f = 0,
                  modified = 10, created = 10, isFolder = True\<rparr>),
      (''docs/a'', \<lparr>name = ''a'', path = ''docs/a'', content = ''hi'', size_f = 2,
                  modified = 20, created = 20, isFolder = False\<rparr>),
      (''docsx'', \<lparr>name = ''docsx'', path = ''docsx'', content = ''y'', size_f = 1,
                  modified = 30, created = 30, isFolder = False\<rparr>)]"

section \<open>Maximize and restore\<close>

lemma twoWindows_eq:
  "twoWindows =
     \<lparr>windows =
        [\<lparr>id_w = ''w1'', title = ''Files'', component = (), x_w = 100, y_w = 100,
          width = 600, height = 400, minimized = False, maximized = False, zIndex = 1000,
          prevX = None, prevY = None, prevWidth = None, prevHeight = None\<rparr>,
         \<lparr>id_w = ''w2'', title = ''Notes'', component = (), x_w = 130, y_w = 130,
          width = 600, height = 400, minimized = False, maximized = False, zIndex = 1001,
          prevX = None, prevY = None, prevWidth = None, prevHeight = None\<rparr>],
      nextZIndex = 1002\<rparr>"
  by (simp add: twoWindows_def openWindow_def initialState_def noOptions_def nullish_def
      plusOne_def maxExact_def)

lemma find_map_same_id:
  assumes "\<And>w. id_w (f w) = id_w w"
  shows "List.find (\<lambda>w. id_w w = i) (map f ws) = map_option f (List.find (\<lambda>w. id_w w = i) ws)"
  using assms by (induction ws) simp_all

lemma id_toggleOne: "id_w (toggleOne vw vh w) = id_w w"
  by (simp add: toggleOne_def)

lemma getWindow_toggleMaximize:
  "getWindow i (toggleMaximize vw vh i s) = map_option (toggleOne vw vh) (getWindow i s)"
proof (cases "List.find (\<lambda>w. id_w w = i) (windows s)")
  case None
  then show ?thesis by (simp add: getWindow_def toggleMaximize_def)
next
  case (Some t)
  let ?f = "\<lambda>w. if id_w w \<noteq> i then w else toggleOne vw vh w"
  have same: "\<And>w. id_w (?f w) = id_w w" by (simp add: id_toggleOne)
  have "List.find (\<lambda>w. id_w w = i) (map ?f (windows s)) = Some (?f t)"
    using find_map_same_id [of ?f i "windows s", OF same] Some by simp
  moreover have "id_w t = i"
    using Some by (auto simp: find_Some_iff)
  ultimately show ?thesis
    using Some by (simp add: getWindow_def toggleMaximize_def)
qed

text \<open>
  C6: for an open window that is not maximized, two calls of toggleMaximize in a row
  (whatever the viewport is at either call) give back the window's x, y, width and
  height, with maximized false and the four saved-geometry fields undefined; every other
  field of the record is as before.
\<close>

theorem toggleMaximize_twice_restores:
  assumes "getWindow i s = Some w" and "\<not> maximized w"
  shows "getWindow i (toggleMaximize vw2 vh2 i (toggleMaximize vw1 vh1 i s)) =
           Some (w\<lparr>prevX := None, prevY := None, prevWidth := None, prevHeight := None\<rparr>)"
  using assms
  by (simp add: getWindow_toggleMaximize toggleOne_def nullish_def)

theorem toggleMaximize_twice_restores_witness:
  "getWindow ''w1''
     (toggleMaximize 800 600 ''w1''
        (toggleMaximize 1920 1080 ''w1''
           (openWindow ''w1'' ''Files'' () noOptions initialState))) =
   Some \<lparr>id_w = ''w1'', title = ''Files'', component = (), x_w = 100, y_w = 100,
          width = 600, height = 400, minimized = False, maximized = False, zIndex = 1000,
          prevX = None, prevY = None, prevWidth = None, prevHeight = None\<rparr>"
proof -
  let ?s = "openWindow ''w1'' ''Files'' () noOptions initialState :: unit WindowManagerState"
  let ?w = "\<lparr>id_w = ''w1'', title = ''Files'', component = (), x_w = 100, y_w = 100,
          width = 600, height = 400, minimized = False, maximized = False, zIndex = 1000,
          prevX = None, prevY = None, prevWidth = None, prevHeight = None\<rparr>"
  have g: "getWindow ''w1'' ?s = Some ?w"
    by (simp add: getWindow_def openWindow_def initialState_def noOptions_def nullish_def)
  have m: "\<not> maximized ?w" by simp
  show ?thesis
    using toggleMaximize_twice_restores [OF g m, of 800 600 1920 1080] by simp
qed

section \<open>What toggleMaximize leaves alone\<close>

lemma length_toggleMaximize:
  "length (windows (toggleMaximize vw vh i s)) = length (windows s)"
  by (simp add: toggleMaximize_def split: option.splits)

lemma nth_toggleMaximize:
  assumes "k < length (windows s)"
  shows "windows (toggleMaximize vw vh i s) ! k =
           (if id_w (windows s ! k) = i then toggleOne vw vh (windows s ! k) else windows s ! k)"
proof (cases "List.find (\<lambda>w. id_w w = i) (windows s)")
  case None
  then have "id_w (windows s ! k) \<noteq> i"
    using assms by (auto simp: find_None_iff)
  with None show ?thesis by (simp add: toggleMaximize_def)
next
  case (Some t)
  with assms show ?thesis by (simp add: toggleMaximize_def)
qed

text \<open>
  C10: toggleMaximize leaves the counter nextZIndex, the number and order of the windows,
  every record with another id, and of the records it does change the fields zIndex, id,
  title, component and minimized as they were: only the geometry, the maximized flag and
  the saved geometry of a window can differ. In particular the window's zIndex does not
  move, so maximizing does not bring a window to the front.
\<close>

theorem toggleMaximize_frame:
  "nextZIndex (toggleMaximize vw vh i s) = nextZIndex s \<and>
   length (windows (toggleMaximize vw vh i s)) = length (windows s) \<and>
   (\<forall>k < length (windows s).
      (id_w (windows s ! k) \<noteq> i \<longrightarrow> windows (toggleMaximize vw vh i s) ! k = windows s ! k) \<and>
      zIndex (windows (toggleMaximize vw vh i s) ! k) = zIndex (windows s ! k) \<and>
      id_w (windows (toggleMaximize vw vh i s) ! k) = id_w (windows s ! k) \<and>
      title (windows (toggleMaximize vw vh i s) ! k) = title (windows s ! k) \<and>
      component (windows (toggleMaximize vw vh i s) ! k) = component (windows s ! k) \<and>
      minimized (windows (toggleMaximize vw vh i s) ! k) = minimized (windows s ! k))"
proof -
  have "nextZIndex (toggleMaximize vw vh i s) = nextZIndex s"
    by (simp add: toggleMaximize_def split: option.splits)
  moreover have "\<forall>k < length (windows s).
      (id_w (windows s ! k) \<noteq> i \<longrightarrow> windows (toggleMaximize vw vh i s) ! k = windows s ! k) \<and>
      zIndex (windows (toggleMaximize vw vh i s) ! k) = zIndex (windows s ! k) \<and>
      id_w (windows (toggleMaximize vw vh i s) ! k) = id_w (windows s ! k) \<and>
      title (windows (toggleMaximize vw vh i s) ! k) = title (windows s ! k) \<and>
      component (windows (toggleMaximize vw vh i s) ! k) = component (windows s ! k) \<and>
      minimized (windows (toggleMaximize vw vh i s) ! k) = minimized (windows s ! k)"
    by (simp add: nth_toggleMaximize toggleOne_def)
  ultimately show ?thesis
    by (simp add: length_toggleMaximize)
qed

theorem toggleMaximize_frame_witness:
  "nextZIndex (toggleMaximize 1920 1080 ''w1'' twoWindows) = 1002 \<and>
   length (windows (toggleMaximize 1920 1080 ''w1'' twoWindows)) = 2 \<and>
   windows (toggleMaximize 1920 1080 ''w1'' twoWindows) ! 1 = windows twoWindows ! 1 \<and>
   zIndex (windows (toggleMaximize 1920 1080 ''w1'' twoWindows) ! 0) = 1000"
  using toggleMaximize_frame [of 1920 1080 "''w1''" twoWindows]
  by (simp add: twoWindows_eq)

section \<open>Opening an id that is already open\<close>

lemma openWindow_existing:
  assumes "getWindow i s = Some existing"
  shows "openWindow i t c options s =
           (if minimized existing then restoreWindow i s else bringToFront i s)"
  using assms by (simp add: openWindow_def getWindow_def)

lemma nth_restoreWindow:
  "k < length (windows s) \<Longrightarrow>
   windows (restoreWindow i s) ! k =
     (if id_w (windows s ! k) = i
      then (windows s ! k)\<lparr>minimized := False, zIndex := nextZIndex s\<rparr> else windows s ! k)"
  by (simp add: restoreWindow_def Let_def)

lemma nth_bringToFront:
  "k < length (windows s) \<Longrightarrow>
   windows (bringToFront i s) ! k =
     (if id_w (windows s ! k) = i
      then (windows s ! k)\<lparr>zIndex := nextZIndex s\<rparr> else windows s ! k)"
  by (simp add: bringToFront_def Let_def)

text \<open>
  C8: when a record with the id exists, openWindow is restoreWindow if that record is
  minimized and bringToFront otherwise. The result does not depend on the title, the
  component or the options passed; the list keeps its length and its ids (no second
  record), records with another id are untouched, and the record itself keeps its title,
  component, geometry and maximized flag (it is not replaced).
\<close>

theorem openWindow_existing_id:
  assumes "getWindow i s = Some existing"
  shows "openWindow i t c options s =
           (if minimized existing then restoreWindow i s else bringToFront i s) \<and>
         openWindow i t c options s = openWindow i t' c' options' s \<and>
         length (windows (openWindow i t c options s)) = length (windows s) \<and>
         (\<forall>k < length (windows s).
            (id_w (windows s ! k) \<noteq> i \<longrightarrow> windows (openWindow i t c options s) ! k = windows s ! k) \<and>
            id_w (windows (openWindow i t c options s) ! k) = id_w (windows s ! k) \<and>
            title (windows (openWindow i t c options s) ! k) = title (windows s ! k) \<and>
            component (windows (openWindow i t c options s) ! k) = component (windows s ! k) \<and>
            x_w (windows (openWindow i t c options s) ! k) = x_w (windows s ! k) \<and>
            y_w (windows (openWindow i t c options s) ! k) = y_w (windows s ! k) \<and>
            width (windows (openWindow i t c options s) ! k) = width (windows s ! k) \<and>
            height (windows (openWindow i t c options s) ! k) = height (windows s ! k) \<and>
            maximized (windows (openWindow i t c options s) ! k) = maximized (windows s ! k))"
proof (cases "minimized existing")
  case True
  have eq: "\<And>t c options. openWindow i t c options s = restoreWindow i s"
    using assms True by (simp add: openWindow_existing)
  have len: "length (windows (restoreWindow i s)) = length (windows s)"
    by (simp add: restoreWindow_def Let_def)
  show ?thesis
    unfolding eq using True by (simp add: len nth_restoreWindow)
next
  case False
  have eq: "\<And>t c options. openWindow i t c options s = bringToFront i s"
    using assms False by (simp add: openWindow_existing)
  have len: "length (windows (bringToFront i s)) = length (windows s)"
    by (simp add: bringToFront_def Let_def)
  show ?thesis
    unfolding eq using False by (simp add: len nth_bringToFront)
qed

theorem openWindow_existing_id_witness:
  "getWindow ''w1'' twoWindows = Some (windows twoWindows ! 0) \<and>
   openWindow ''w1'' ''Other title'' () (noOptions\<lparr>opt_x := Some 5, opt_width := Some 50\<rparr>) twoWindows =
     bringToFront ''w1'' twoWindows \<and>
   length (windows (openWindow ''w1'' ''Other title'' ()
      (noOptions\<lparr>opt_x := Some 5, opt_width := Some 50\<rparr>) twoWindows)) = 2 \<and>
   title (windows (openWindow ''w1'' ''Other title'' ()
      (noOptions\<lparr>opt_x := Some 5, opt_width := Some 50\<rparr>) twoWindows) ! 0) = ''Files'' \<and>
   x_w (windows (openWindow ''w1'' ''Other title'' ()
      (noOptions\<lparr>opt_x := Some 5, opt_width := Some 50\<rparr>) twoWindows) ! 0) = 100 \<and>
   width (windows (openWindow ''w1'' ''Other title'' ()
      (noOptions\<lparr>opt_x := Some 5, opt_width := Some 50\<rparr>) twoWindows) ! 0) = 600"
proof -
  let ?o = "noOptions\<lparr>opt_x := Some 5, opt_width := Some 50\<rparr>"
  have g: "getWindow ''w1'' twoWindows = Some (windows twoWindows ! 0)"
    by (simp add: twoWindows_eq getWindow_def)
  have m: "\<not> minimized (windows twoWindows ! 0)"
    by (simp add: twoWindows_eq)
  have e: "openWindow ''w1'' ''Other title'' () ?o twoWindows = bringToFront ''w1'' twoWindows"
    using openWindow_existing_id [OF g, of "''Other title''" "()" ?o "''Other title''" "()" ?o] m
    by simp
  have b: "windows (bringToFront ''w1'' twoWindows) =
             [(windows twoWindows ! 0)\<lparr>zIndex := 1002\<rparr>, windows twoWindows ! 1]"
    by (simp add: twoWindows_eq bringToFront_def Let_def)
  have f: "title (windows twoWindows ! 0) = ''Files''" "x_w (windows twoWindows ! 0) = 100"
    "width (windows twoWindows ! 0) = 600"
    by (simp_all add: twoWindows_eq)
  show ?thesis
    unfolding e b using g f by simp
qed

section \<open>updatePosition and updateSize\<close>

lemma find_None_map_id:
  assumes "List.find (\<lambda>w. id_w w = i) ws = None"
  shows "map (\<lambda>w. if id_w w = i then f w else w) ws = ws"
  using assms by (induction ws) (auto split: if_splits)

lemma updatePosition_absent:
  "getWindow i s = None \<Longrightarrow> updatePosition i x y s = s"
  by (simp add: getWindow_def updatePosition_def find_None_map_id)

lemma updateSize_absent:
  "getWindow i s = None \<Longrightarrow> updateSize i a b s = s"
  by (simp add: getWindow_def updateSize_def find_None_map_id)

lemma getWindow_map:
  assumes "\<And>w. id_w (f w) = id_w w"
  shows "getWindow i (s\<lparr>windows := map f (windows s)\<rparr>) = map_option f (getWindow i s)"
  using find_map_same_id [of f i "windows s"] assms by (simp add: getWindow_def)

lemma getWindow_updatePosition:
  "getWindow i s = Some w \<Longrightarrow> getWindow i (updatePosition i x y s) = Some (w\<lparr>x_w := x, y_w := y\<rparr>)"
proof -
  assume g: "getWindow i s = Some w"
  then have "id_w w = i" by (auto simp: getWindow_def find_Some_iff)
  then show ?thesis
    using g getWindow_map [of "\<lambda>w. if id_w w = i then w\<lparr>x_w := x, y_w := y\<rparr> else w" i s]
    by (simp add: updatePosition_def)
qed

lemma getWindow_updateSize:
  "getWindow i s = Some w \<Longrightarrow> getWindow i (updateSize i a b s) = Some (w\<lparr>width := a, height := b\<rparr>)"
proof -
  assume g: "getWindow i s = Some w"
  then have "id_w w = i" by (auto simp: getWindow_def find_Some_iff)
  then show ?thesis
    using g getWindow_map [of "\<lambda>w. if id_w w = i then w\<lparr>width := a, height := b\<rparr> else w" i s]
    by (simp add: updateSize_def)
qed

text \<open>
  C4, as stated, fails: updatePosition and updateSize do not look at the maximized flag.
  On a maximized window ''w1'' they overwrite x (here with 5) and width (here with 300),
  so the state changes.
\<close>

theorem update_geometry_maximized_counterexample:
  "maximized (windows (toggleMaximize 1920 1080 ''w1'' twoWindows) ! 0) \<and>
   id_w (windows (toggleMaximize 1920 1080 ''w1'' twoWindows) ! 0) = ''w1'' \<and>
   updatePosition ''w1'' 5 7 (toggleMaximize 1920 1080 ''w1'' twoWindows)
     \<noteq> toggleMaximize 1920 1080 ''w1'' twoWindows \<and>
   x_w (windows (updatePosition ''w1'' 5 7 (toggleMaximize 1920 1080 ''w1'' twoWindows)) ! 0) = 5 \<and>
   updateSize ''w1'' 300 200 (toggleMaximize 1920 1080 ''w1'' twoWindows)
     \<noteq> toggleMaximize 1920 1080 ''w1'' twoWindows \<and>
   width (windows (updateSize ''w1'' 300 200 (toggleMaximize 1920 1080 ''w1'' twoWindows)) ! 0) = 300"
proof -
  have t: "toggleMaximize 1920 1080 ''w1'' twoWindows =
     \<lparr>windows =
        [\<lparr>id_w = ''w1'', title = ''Files'', component = (), x_w = 0, y_w = 0,
          width = 1920, height = 1080, minimized = False, maximized = True, zIndex = 1000,
          prevX = Some 100, prevY = Some 100, prevWidth = Some 600, prevHeight = Some 400\<rparr>,
         \<lparr>id_w = ''w2'', title = ''Notes'', component = (), x_w = 130, y_w = 130,
          width = 600, height = 400, minimized = False, maximized = False, zIndex = 1001,
          prevX = None, prevY = None, prevWidth = None, prevHeight = None\<rparr>],
      nextZIndex = 1002\<rparr>"
    by (simp add: twoWindows_eq toggleMaximize_def toggleOne_def)
  show ?thesis
    unfolding t by (simp add: updatePosition_def updateSize_def)
qed

text \<open>
  C4, amended: updatePosition and updateSize are no-ops when no record has the id. When a
  record has it, they set its x and y (its width and height), maximized or not, and keep
  its other fields; the counter, the length of the list and every record with another
  id are unchanged.
\<close>

theorem update_geometry_effect:
  "(getWindow i s = None \<longrightarrow> updatePosition i x y s = s \<and> updateSize i a b s = s) \<and>
   (\<forall>w. getWindow i s = Some w \<longrightarrow>
      getWindow i (updatePosition i x y s) = Some (w\<lparr>x_w := x, y_w := y\<rparr>) \<and>
      getWindow i (updateSize i a b s) = Some (w\<lparr>width := a, height := b\<rparr>)) \<and>
   nextZIndex (updatePosition i x y s) = nextZIndex s \<and>
   nextZIndex (updateSize i a b s) = nextZIndex s \<and>
   length (windows (updatePosition i x y s)) = length (windows s) \<and>
   length (windows (updateSize i a b s)) = length (windows s) \<and>
   (\<forall>k < length (windows s). id_w (windows s ! k) \<noteq> i \<longrightarrow>
      windows (updatePosition i x y s) ! k = windows s ! k \<and>
      windows (updateSize i a b s) ! k = windows s ! k)"
proof -
  have "\<forall>k < length (windows s). id_w (windows s ! k) \<noteq> i \<longrightarrow>
      windows (updatePosition i x y s) ! k = windows s ! k \<and>
      windows (updateSize i a b s) ! k = windows s ! k"
    by (simp add: updatePosition_def updateSize_def)
  moreover have "nextZIndex (updatePosition i x y s) = nextZIndex s"
    "nextZIndex (updateSize i a b s) = nextZIndex s"
    "length (windows (updatePosition i x y s)) = length (windows s)"
    "length (windows (updateSize i a b s)) = length (windows s)"
    by (simp_all add: updatePosition_def updateSize_def)
  ultimately show ?thesis
    using updatePosition_absent [of i s x y] updateSize_absent [of i s a b]
      getWindow_updatePosition [of i s _ x y] getWindow_updateSize [of i s _ a b]
    by blast
qed

theorem update_geometry_effect_witness:
  "getWindow ''w9'' twoWindows = None \<and>
   updatePosition ''w9'' 5 7 twoWindows = twoWindows \<and>
   updateSize ''w9'' 300 200 twoWindows = twoWindows \<and>
   getWindow ''w2'' twoWindows = Some (windows twoWindows ! 1) \<and>
   getWindow ''w2'' (updatePosition ''w2'' 5 7 twoWindows) =
     Some ((windows twoWindows ! 1)\<lparr>x_w := 5, y_w := 7\<rparr>) \<and>
   getWindow ''w2'' (updateSize ''w2'' 300 200 twoWindows) =
     Some ((windows twoWindows ! 1)\<lparr>width := 300, height := 200\<rparr>) \<and>
   windows (updatePosition ''w2'' 5 7 twoWindows) ! 0 = windows twoWindows ! 0"
proof -
  have n: "getWindow ''w9'' twoWindows = None"
    by (simp add: twoWindows_eq getWindow_def)
  have g: "getWindow ''w2'' twoWindows = Some (windows twoWindows ! 1)"
    by (simp add: twoWindows_eq getWindow_def)
  have l: "0 < length (windows twoWindows)" "id_w (windows twoWindows ! 0) \<noteq> ''w2''"
    by (simp_all add: twoWindows_eq)
  show ?thesis
    using n g l update_geometry_effect [of "''w9''" twoWindows 5 7 300 200]
      update_geometry_effect [of "''w2''" twoWindows 5 7 300 200]
    by blast
qed

section \<open>Z-order\<close>

lemma map_keeps_id_z:
  assumes "\<And>w. id_w (f w) = id_w w" and "\<And>w. zIndex (f w) = zIndex w"
  shows "map id_w (map f ws) = map id_w ws" and "map zIndex (map f ws) = map zIndex ws"
  using assms by simp_all

lemma wm_inv_map:
  assumes "wm_inv s" and "\<And>w. id_w (f w) = id_w w" and "\<And>w. zIndex (f w) = zIndex w"
  shows "wm_inv (s\<lparr>windows := map f (windows s)\<rparr>)"
  using assms by (simp add: wm_inv_def comp_def)

lemma raise_ids:
  assumes "\<And>w. id_w (g w) = id_w w"
  shows "map id_w (map (\<lambda>w. if id_w w = i then g w else w) ws) = map id_w ws"
  using assms by (induction ws) simp_all

lemma raise_below:
  assumes "\<forall>w \<in> set ws. zIndex w < nz" and "\<And>w. zIndex (g w) = nz"
  shows "\<forall>w \<in> set (map (\<lambda>w. if id_w w = i then g w else w) ws). zIndex w < nz + 1"
  using assms by (induction ws) auto

lemma raise_others_unchanged:
  assumes "i \<notin> id_w ` set ws"
  shows "map (\<lambda>w. if id_w w = i then g w else w) ws = ws"
  using assms by (induction ws) auto

lemma raise_distinct:
  assumes "distinct (map id_w ws)" and "distinct (map zIndex ws)"
    and "\<forall>w \<in> set ws. zIndex w < nz" and "\<And>w. zIndex (g w) = nz"
  shows "distinct (map zIndex (map (\<lambda>w. if id_w w = i then g w else w) ws))"
  using assms
proof (induction ws)
  case Nil
  then show ?case by simp
next
  case (Cons w ws)
  let ?f = "\<lambda>w. if id_w w = i then g w else w"
  have ih: "distinct (map zIndex (map ?f ws))"
    using Cons by simp
  show ?case
  proof (cases "id_w w = i")
    case True
    then have "i \<notin> id_w ` set ws" using Cons.prems(1) by auto
    then have same: "map ?f ws = ws" by (rule raise_others_unchanged)
    have "nz \<notin> zIndex ` set ws" using Cons.prems(3) by auto
    then show ?thesis using True Cons.prems(2,4) same by (simp del: map_map)
  next
    case False
    have lt: "zIndex w < nz" using Cons.prems(3) by simp
    have nin: "\<forall>v \<in> set ws. zIndex v \<noteq> zIndex w"
      using Cons.prems(2) by (auto simp: image_iff)
    have "\<forall>v \<in> set ws. zIndex (?f v) \<noteq> zIndex w"
    proof
      fix v assume v: "v \<in> set ws"
      show "zIndex (?f v) \<noteq> zIndex w"
      proof (cases "id_w v = i")
        case True
        then show ?thesis using lt Cons.prems(4) [of v] by simp
      next
        case False
        then show ?thesis using nin v by simp
      qed
    qed
    then show ?thesis using False ih by (auto simp del: map_map)
  qed
qed

lemma plusOne_below: "n < maxExact \<Longrightarrow> plusOne n = n + 1"
  by (simp add: plusOne_def)

lemma plusOne_stuck: "plusOne maxExact = maxExact"
  by (simp add: plusOne_def)

lemma plusOne_range: "1000 \<le> n \<Longrightarrow> n \<le> maxExact \<Longrightarrow> 1000 \<le> plusOne n \<and> plusOne n \<le> maxExact"
  by (simp add: plusOne_def)

lemma plusOne_mono: "plusOne n < maxExact \<Longrightarrow> n < maxExact"
  by (simp add: plusOne_def split: if_splits)

lemma wm_inv_raise:
  assumes "wm_inv s" and "\<And>w. id_w (g w) = id_w w" and "\<And>w. zIndex (g w) = nextZIndex s"
  shows "wm_inv (s\<lparr>windows := map (\<lambda>w. if id_w w = i then g w else w) (windows s),
                  nextZIndex := plusOne (nextZIndex s)\<rparr>)"
proof -
  let ?ws = "map (\<lambda>w. if id_w w = i then g w else w) (windows s)"
  have ids: "distinct (map id_w ?ws)"
    using assms(1) raise_ids [of g i "windows s"] assms(2) by (simp add: wm_inv_def del: map_map)
  have range: "1000 \<le> plusOne (nextZIndex s) \<and> plusOne (nextZIndex s) \<le> maxExact"
    using assms(1) by (intro plusOne_range) (simp_all add: wm_inv_def)
  have fresh: "distinct (map zIndex ?ws) \<and> (\<forall>w \<in> set ?ws. zIndex w < plusOne (nextZIndex s))"
    if "plusOne (nextZIndex s) < maxExact"
  proof -
    have lt: "nextZIndex s < maxExact" using that by (rule plusOne_mono)
    then have d: "distinct (map zIndex (windows s))"
      and b: "\<forall>w \<in> set (windows s). zIndex w < nextZIndex s"
      using assms(1) by (simp_all add: wm_inv_def)
    have d1: "distinct (map id_w (windows s))" using assms(1) by (simp add: wm_inv_def)
    show ?thesis
      using raise_distinct [OF d1 d b assms(3), of i] raise_below [OF b assms(3), of i]
        plusOne_below [OF lt]
      by simp
  qed
  show ?thesis
    using ids range fresh by (simp add: wm_inv_def del: map_map)
qed

lemma wm_inv_initialState: "wm_inv initialState"
  by (simp add: wm_inv_def initialState_def maxExact_def)

lemma wm_inv_bringToFront: "wm_inv s \<Longrightarrow> wm_inv (bringToFront i s)"
  using wm_inv_raise [of s "\<lambda>w. w\<lparr>zIndex := nextZIndex s\<rparr>" i]
  by (simp add: bringToFront_def Let_def)

lemma wm_inv_restoreWindow: "wm_inv s \<Longrightarrow> wm_inv (restoreWindow i s)"
  using wm_inv_raise [of s "\<lambda>w. w\<lparr>minimized := False, zIndex := nextZIndex s\<rparr>" i]
  by (simp add: restoreWindow_def Let_def)

lemma wm_inv_closeWindow: "wm_inv s \<Longrightarrow> wm_inv (closeWindow i s)"
  by (simp add: wm_inv_def closeWindow_def distinct_map_filter)

lemma wm_inv_minimizeWindow: "wm_inv s \<Longrightarrow> wm_inv (minimizeWindow i s)"
  using wm_inv_map [of s "\<lambda>w. if id_w w = i then w\<lparr>minimized := True\<rparr> else w"]
  by (simp add: minimizeWindow_def)

lemma wm_inv_updatePosition: "wm_inv s \<Longrightarrow> wm_inv (updatePosition i x y s)"
  using wm_inv_map [of s "\<lambda>w. if id_w w = i then w\<lparr>x_w := x, y_w := y\<rparr> else w"]
  by (simp add: updatePosition_def)

lemma wm_inv_updateSize: "wm_inv s \<Longrightarrow> wm_inv (updateSize i a b s)"
  using wm_inv_map [of s "\<lambda>w. if id_w w = i then w\<lparr>width := a, height := b\<rparr> else w"]
  by (simp add: updateSize_def)

lemma wm_inv_toggleMaximize: "wm_inv s \<Longrightarrow> wm_inv (toggleMaximize vw vh i s)"
  using wm_inv_map [of s "\<lambda>w. if id_w w \<noteq> i then w else toggleOne vw vh w"]
  by (simp add: toggleMaximize_def toggleOne_def split: option.splits)

lemma wm_inv_openWindow:
  assumes "wm_inv s"
  shows "wm_inv (openWindow i t c options s)"
proof (cases "List.find (\<lambda>w. id_w w = i) (windows s)")
  case None
  then have new_id: "i \<notin> id_w ` set (windows s)"
    by (auto simp: find_None_iff)
  have range: "1000 \<le> plusOne (nextZIndex s) \<and> plusOne (nextZIndex s) \<le> maxExact"
    using assms by (intro plusOne_range) (simp_all add: wm_inv_def)
  have fresh: "distinct (map zIndex (windows s)) \<and> nextZIndex s \<notin> zIndex ` set (windows s) \<and>
               (\<forall>w \<in> set (windows s). zIndex w < plusOne (nextZIndex s)) \<and>
               nextZIndex s < plusOne (nextZIndex s)"
    if "plusOne (nextZIndex s) < maxExact"
  proof -
    have lt: "nextZIndex s < maxExact" using that by (rule plusOne_mono)
    then show ?thesis
      using assms plusOne_below [OF lt] by (auto simp: wm_inv_def)
  qed
  show ?thesis
    using assms None new_id range fresh
    by (auto simp: wm_inv_def openWindow_def Let_def)
next
  case (Some existing)
  then show ?thesis
    using assms by (simp add: openWindow_def wm_inv_bringToFront wm_inv_restoreWindow)
qed

lemma reachable_wm_inv: "reachable s \<Longrightarrow> wm_inv s"
  by (induction rule: reachable.induct)
    (simp_all add: wm_inv_initialState wm_inv_openWindow wm_inv_closeWindow
      wm_inv_minimizeWindow wm_inv_restoreWindow wm_inv_toggleMaximize wm_inv_bringToFront
      wm_inv_updatePosition wm_inv_updateSize)

text \<open>The counter never leaves the range on which \<open>plusOne\<close> is the double's \<open>+ 1\<close>.\<close>

lemma reachable_counter_range:
  "reachable s \<Longrightarrow> 1000 \<le> nextZIndex s \<and> nextZIndex s \<le> maxExact"
  using reachable_wm_inv [of s] by (simp add: wm_inv_def)

lemma getWindow_bringToFront:
  assumes "getWindow i s = Some w"
  shows "getWindow i (bringToFront i s) = Some (w\<lparr>zIndex := nextZIndex s\<rparr>)"
proof -
  have "id_w w = i" using assms by (auto simp: getWindow_def find_Some_iff)
  then show ?thesis
    using assms
      find_map_same_id [of "\<lambda>w. if id_w w = i then w\<lparr>zIndex := nextZIndex s\<rparr> else w" i "windows s"]
    by (simp add: bringToFront_def getWindow_def Let_def)
qed

lemma others_after_bringToFront:
  assumes "w' \<in> set (windows (bringToFront i s))" and "id_w w' \<noteq> i"
  shows "w' \<in> set (windows s)"
  using assms by (auto simp: bringToFront_def Let_def split: if_splits)

lemma reachable_twoWindows: "reachable twoWindows"
  unfolding twoWindows_def by (intro reachable.intros)

subsection \<open>The counter at its limit\<close>

lemma reachable_funpow_bringToFront:
  "reachable s \<Longrightarrow> reachable ((bringToFront i ^^ n) s)"
  by (induction n) (simp_all add: reachable.reach_front)

lemma nextZIndex_bringToFront: "nextZIndex (bringToFront i s) = plusOne (nextZIndex s)"
  by (simp add: bringToFront_def Let_def)

lemma ids_bringToFront: "map id_w (windows (bringToFront i s)) = map id_w (windows s)"
  using raise_ids [of "\<lambda>w. w\<lparr>zIndex := nextZIndex s\<rparr>" i "windows s"]
  by (simp add: bringToFront_def Let_def del: map_map)

lemma nextZIndex_funpow_bringToFront:
  "nextZIndex s + int n \<le> maxExact \<Longrightarrow>
   nextZIndex ((bringToFront i ^^ n) s) = nextZIndex s + int n"
proof (induction n)
  case 0
  then show ?case by simp
next
  case (Suc n)
  then have "nextZIndex ((bringToFront i ^^ n) s) = nextZIndex s + int n" by simp
  moreover have "nextZIndex s + int n < maxExact" using Suc.prems by simp
  ultimately show ?case
    by (simp add: nextZIndex_bringToFront plusOne_below)
qed

lemma ids_funpow_bringToFront:
  "map id_w (windows ((bringToFront i ^^ n) s)) = map id_w (windows s)"
  by (induction n) (simp_all add: ids_bringToFront)

text \<open>
  Raising one window and then another while the counter stands at \<open>maxExact\<close> gives both
  the z-index \<open>maxExact\<close>.
\<close>

lemma raise_two_at_limit:
  assumes "map id_w (windows s) = [a, b]" and "a \<noteq> b" and "nextZIndex s = maxExact"
  shows "map zIndex (windows (bringToFront b (bringToFront a s))) = [maxExact, maxExact]"
proof -
  obtain wa wb where ws: "windows s = [wa, wb]" and ids: "id_w wa = a" "id_w wb = b"
    using assms(1) by auto
  have s1: "windows (bringToFront a s) = [wa\<lparr>zIndex := maxExact\<rparr>, wb]"
    using ws ids assms(2,3) by (simp add: bringToFront_def Let_def)
  have n1: "nextZIndex (bringToFront a s) = maxExact"
    using assms(3) by (simp add: nextZIndex_bringToFront plusOne_stuck)
  show ?thesis
    using s1 n1 ids assms(2) by (simp add: bringToFront_def Let_def)
qed

text \<open>
  C3, as stated, fails once the counter has reached \<open>2 ^ 53\<close>: from the state with the
  two windows ''w1'' and ''w2'' (counter 1002), raising ''w1'' 9007199254739990 times
  brings the counter to \<open>2 ^ 53\<close>, where it stays; raising ''w1'' and then ''w2'' once
  more gives both the z-index \<open>2 ^ 53\<close>. The state is reachable, two windows share a
  z-index, and ''w2'', just brought to the front, is not above ''w1''.
\<close>

theorem z_index_shared_at_limit_counterexample:
  "reachable (bringToFront ''w2'' (bringToFront ''w1''
      ((bringToFront ''w1'' ^^ 9007199254739990) twoWindows))) \<and>
   map id_w (windows (bringToFront ''w2'' (bringToFront ''w1''
      ((bringToFront ''w1'' ^^ 9007199254739990) twoWindows)))) = [''w1'', ''w2''] \<and>
   map zIndex (windows (bringToFront ''w2'' (bringToFront ''w1''
      ((bringToFront ''w1'' ^^ 9007199254739990) twoWindows)))) =
     [9007199254740992, 9007199254740992] \<and>
   \<not> distinct (map zIndex (windows (bringToFront ''w2'' (bringToFront ''w1''
      ((bringToFront ''w1'' ^^ 9007199254739990) twoWindows)))))"
proof -
  define s0 where "s0 = (bringToFront ''w1'' ^^ 9007199254739990) twoWindows"
  have r0: "reachable s0"
    unfolding s0_def using reachable_twoWindows by (rule reachable_funpow_bringToFront)
  have n2: "nextZIndex twoWindows = 1002" by (simp add: twoWindows_eq)
  have "nextZIndex twoWindows + int 9007199254739990 \<le> maxExact"
    by (simp add: n2 maxExact_def)
  then have "nextZIndex s0 = nextZIndex twoWindows + int 9007199254739990"
    unfolding s0_def by (rule nextZIndex_funpow_bringToFront)
  then have n0: "nextZIndex s0 = maxExact"
    by (simp add: n2 maxExact_def)
  have "map id_w (windows s0) = map id_w (windows twoWindows)"
    unfolding s0_def by (rule ids_funpow_bringToFront)
  then have i0: "map id_w (windows s0) = [''w1'', ''w2'']"
    by (simp add: twoWindows_eq)
  have ne: "''w1'' \<noteq> ''w2''" by simp
  have z: "map zIndex (windows (bringToFront ''w2'' (bringToFront ''w1'' s0))) =
             [maxExact, maxExact]"
    using i0 ne n0 by (rule raise_two_at_limit)
  have r: "reachable (bringToFront ''w2'' (bringToFront ''w1'' s0))"
    using r0 by (intro reachable.reach_front)
  have i: "map id_w (windows (bringToFront ''w2'' (bringToFront ''w1'' s0))) = [''w1'', ''w2'']"
    using i0 by (simp add: ids_bringToFront)
  have nd: "\<not> distinct (map zIndex (windows (bringToFront ''w2'' (bringToFront ''w1'' s0))))"
    unfolding z by simp
  show ?thesis
    using r i z nd unfolding s0_def maxExact_def by (intro conjI)
qed

text \<open>
  C3, amended: in every state reachable from the initial one by the eight actions whose
  counter nextZIndex is still below \<open>2 ^ 53\<close>, no two windows share an id or a zIndex; and
  when a window with id i is open in such a state, after bringToFront i that window's
  zIndex is strictly greater than the zIndex of every window with another id.
\<close>

theorem z_index_unique_and_front:
  assumes "reachable s" and "nextZIndex s < maxExact"
  shows "distinct (map id_w (windows s)) \<and> distinct (map zIndex (windows s)) \<and>
         (\<forall>w. getWindow i s = Some w \<longrightarrow>
            (\<exists>w1. getWindow i (bringToFront i s) = Some w1 \<and>
               (\<forall>w' \<in> set (windows (bringToFront i s)).
                   id_w w' \<noteq> i \<longrightarrow> zIndex w' < zIndex w1)))"
proof -
  have inv: "wm_inv s" using assms(1) by (rule reachable_wm_inv)
  have below: "\<forall>w \<in> set (windows s). zIndex w < nextZIndex s"
    and d: "distinct (map zIndex (windows s))" and di: "distinct (map id_w (windows s))"
    using inv assms(2) by (simp_all add: wm_inv_def)
  have front: "\<exists>w1. getWindow i (bringToFront i s) = Some w1 \<and>
               (\<forall>w' \<in> set (windows (bringToFront i s)).
                   id_w w' \<noteq> i \<longrightarrow> zIndex w' < zIndex w1)"
    if g: "getWindow i s = Some w" for w
  proof -
    have "\<forall>w' \<in> set (windows (bringToFront i s)).
            id_w w' \<noteq> i \<longrightarrow> zIndex w' < zIndex (w\<lparr>zIndex := nextZIndex s\<rparr>)"
      using below others_after_bringToFront [of _ i s] by auto
    with getWindow_bringToFront [OF g] show ?thesis by blast
  qed
  show ?thesis
    using d di front by simp
qed

theorem z_index_unique_and_front_witness:
  "reachable twoWindows \<and> nextZIndex twoWindows < maxExact \<and>
   getWindow ''w1'' twoWindows = Some (windows twoWindows ! 0) \<and>
   distinct (map zIndex (windows twoWindows)) \<and>
   (\<exists>w1. getWindow ''w1'' (bringToFront ''w1'' twoWindows) = Some w1 \<and>
      zIndex (windows (bringToFront ''w1'' twoWindows) ! 1) < zIndex w1)"
proof -
  have g: "getWindow ''w1'' twoWindows = Some (windows twoWindows ! 0)"
    by (simp add: twoWindows_eq getWindow_def)
  have b: "nextZIndex twoWindows < maxExact"
    by (simp add: twoWindows_eq maxExact_def)
  have m: "windows (bringToFront ''w1'' twoWindows) ! 1 \<in> set (windows (bringToFront ''w1'' twoWindows))"
    "id_w (windows (bringToFront ''w1'' twoWindows) ! 1) \<noteq> ''w1''"
    by (simp_all add: twoWindows_eq bringToFront_def Let_def)
  show ?thesis
    using z_index_unique_and_front [OF reachable_twoWindows b, of "''w1''"] g b m
      reachable_twoWindows
    by blast
qed

section \<open>The store as an association list\<close>

lemma map_of_map_set: "map_of (map_set k v kvs) = (map_of kvs)(k \<mapsto> v)"
  by (induction kvs) (auto simp: fun_eq_iff)

lemma map_fst_map_set:
  "map_of kvs k = Some v0 \<Longrightarrow> map fst (map_set k v kvs) = map fst kvs"
  by (induction kvs) (auto split: if_splits)

lemma map_of_filter_keys:
  "map_of (filter (\<lambda>kv. P (fst kv)) kvs) k = (if P k then map_of kvs k else None)"
  by (induction kvs) auto

lemma map_of_map_delete:
  "map_of (map_delete k kvs) k' = (if k' = k then None else map_of kvs k')"
  unfolding map_delete_def using map_of_filter_keys [of "\<lambda>x. x \<noteq> k" kvs k'] by simp

lemma foldl_map_delete:
  "foldl (\<lambda>fs k. map_delete k fs) kvs ks = filter (\<lambda>kv. fst kv \<notin> set ks) kvs"
proof (induction ks arbitrary: kvs)
  case Nil
  then show ?case by simp
next
  case (Cons k ks)
  have "filter (\<lambda>kv. fst kv \<notin> set ks) (filter (\<lambda>kv. fst kv \<noteq> k) kvs) =
        filter (\<lambda>kv. fst kv \<notin> set (k # ks)) kvs"
    by (induction kvs) auto
  then have "filter (\<lambda>kv. fst kv \<notin> set ks) (map_delete k kvs) =
        filter (\<lambda>kv. fst kv \<notin> set (k # ks)) kvs"
    by (simp only: map_delete_def)
  then show ?case
    by (simp add: Cons.IH)
qed

lemma delete_matching_keys:
  "foldl (\<lambda>fs k. map_delete k fs) files (map fst (filter (\<lambda>kv. P (fst kv)) files)) =
     filter (\<lambda>kv. \<not> P (fst kv)) files"
proof -
  have "\<And>kv. kv \<in> set files \<Longrightarrow>
          (fst kv \<notin> set (map fst (filter (\<lambda>kv. P (fst kv)) files))) = (\<not> P (fst kv))"
    by force
  then show ?thesis
    unfolding foldl_map_delete by (intro filter_cong) auto
qed

lemma deleteFile_folder:
  assumes "normalizePath p = f" and "f \<noteq> []"
    and "map_of files f = Some e" and "isFolder e"
  shows "deleteFile p files = (True, filter (\<lambda>kv. \<not> matchesFolder f (fst kv)) files)"
  using assms by (simp add: deleteFile_def map_has_def delete_matching_keys)

text \<open>Every operation keeps the keys of the store distinct, as a Map does.\<close>

lemma keys_map_set: "fst ` set (map_set k v kvs) = insert k (fst ` set kvs)"
  by (induction kvs) auto

lemma wf_storage_map_set: "wf_storage kvs \<Longrightarrow> wf_storage (map_set k v kvs)"
  unfolding wf_storage_def
proof (induction kvs)
  case Nil
  then show ?case by simp
next
  case (Cons kv kvs)
  then show ?case
    using keys_map_set [of k v kvs] by (auto simp del: map_set.simps(2) simp add: map_set.simps(2) [of k v kv kvs])
qed

lemma wf_storage_map_delete: "wf_storage kvs \<Longrightarrow> wf_storage (map_delete k kvs)"
  by (simp add: wf_storage_def map_delete_def distinct_map_filter)

lemma wf_storage_foldl_set:
  "wf_storage fs \<Longrightarrow> wf_storage (foldl (\<lambda>fs m. map_set (kf m) (vf m) fs) fs ms)"
  by (induction ms arbitrary: fs) (simp_all add: wf_storage_map_set)

lemma wf_storage_deleteOld: "wf_storage fs \<Longrightarrow> wf_storage (deleteOld ms fs)"
  unfolding deleteOld_def
  by (induction ms arbitrary: fs) (simp_all add: wf_storage_map_delete)

lemma wf_storage_writeFile:
  "wf_storage files \<Longrightarrow> wf_storage (writeFile filename cont folder now files)"
  by (simp add: writeFile_def Let_def wf_storage_map_set)

lemma wf_storage_createFolder:
  "wf_storage files \<Longrightarrow> createFolder folderName parentFolder now files = Inr files' \<Longrightarrow>
   wf_storage files'"
  by (auto simp: createFolder_def Let_def wf_storage_map_set split: if_splits)

lemma deleteFile_is_filter: "\<exists>P. snd (deleteFile p files) = filter P files"
proof -
  have a: "\<exists>P. files = filter P files"
    by (rule exI [of _ "\<lambda>_. True"]) simp
  have b: "\<exists>P. map_delete k files = filter P files" for k
    unfolding map_delete_def by blast
  have c: "\<exists>P. foldl (\<lambda>fs k. map_delete k fs) files ks = filter P files" for ks
    unfolding foldl_map_delete by blast
  show ?thesis
    unfolding deleteFile_def Let_def using a b c
    by (simp split: option.splits prod.splits)
qed

lemma wf_storage_deleteFile:
  assumes "wf_storage files"
  shows "wf_storage (snd (deleteFile p files))"
proof -
  obtain P where "snd (deleteFile p files) = filter P files"
    using deleteFile_is_filter by blast
  then show ?thesis
    using assms by (simp add: wf_storage_def distinct_map_filter)
qed

lemma wf_storage_moveFile:
  "wf_storage files \<Longrightarrow> wf_storage (snd (moveFile sourcePath targetFolder files))"
  by (simp add: moveFile_def Let_def wf_storage_foldl_set wf_storage_deleteOld
      wf_storage_map_set wf_storage_map_delete split: option.splits)

lemma wf_storage_renameFile:
  "wf_storage files \<Longrightarrow> wf_storage (snd (renameFile p newName files))"
  by (simp add: renameFile_def Let_def wf_storage_foldl_set wf_storage_deleteOld
      wf_storage_map_set wf_storage_map_delete split: option.splits)

section \<open>Cascading delete\<close>

lemma startsWith_iff: "startsWith s p \<longleftrightarrow> (\<exists>t. s = p @ t)"
proof
  assume "startsWith s p"
  then have "s = p @ drop (length p) s"
    unfolding startsWith_def by (metis append_take_drop_id)
  then show "\<exists>t. s = p @ t" ..
next
  assume "\<exists>t. s = p @ t"
  then show "startsWith s p" by (auto simp: startsWith_def)
qed

lemma matchesFolder_iff:
  "matchesFolder f k \<longleftrightarrow> k = f \<or> (\<exists>suffix. k = f @ ''/'' @ suffix)"
  by (simp add: matchesFolder_def startsWith_iff)

text \<open>
  C1: when the store holds a folder at the path f that deleteFile's argument normalizes
  to (f itself, for a normalized f; f is not the empty path, which denotes the root and
  is never an entry), deleteFile returns true and removes the entry at f and every entry
  whose key is f followed by a slash and any suffix; every other entry stays, with its
  value and its place in the store's order.
\<close>

theorem deleteFile_folder_cascade:
  assumes "normalizePath p = f" and "f \<noteq> []"
    and "map_of files f = Some e" and "isFolder e"
  shows "fst (deleteFile p files) \<and>
         snd (deleteFile p files) = filter (\<lambda>kv. \<not> matchesFolder f (fst kv)) files \<and>
         (\<forall>k. map_of (snd (deleteFile p files)) k =
               (if k = f \<or> (\<exists>suffix. k = f @ ''/'' @ suffix) then None else map_of files k))"
proof -
  have d: "deleteFile p files = (True, filter (\<lambda>kv. \<not> matchesFolder f (fst kv)) files)"
    using assms by (rule deleteFile_folder)
  have "map_of (filter (\<lambda>kv. \<not> matchesFolder f (fst kv)) files) k =
          (if k = f \<or> (\<exists>suffix. k = f @ ''/'' @ suffix) then None else map_of files k)" for k
    using map_of_filter_keys [of "\<lambda>k. \<not> matchesFolder f k" files k]
    by (simp add: matchesFolder_iff)
  then show ?thesis
    by (simp add: d)
qed

theorem deleteFile_folder_cascade_witness:
  "normalizePath ''docs'' = ''docs'' \<and>
   map_option isFolder (map_of exampleFiles ''docs'') = Some True \<and>
   fst (deleteFile ''docs'' exampleFiles) \<and>
   map fst (snd (deleteFile ''docs'' exampleFiles)) = [''docsx''] \<and>
   map_of (snd (deleteFile ''docs'' exampleFiles)) ''docs'' = None \<and>
   map_of (snd (deleteFile ''docs'' exampleFiles)) ''docs/a'' = None \<and>
   map_of (snd (deleteFile ''docs'' exampleFiles)) ''docsx'' = map_of exampleFiles ''docsx''"
proof -
  have n: "normalizePath ''docs'' = ''docs''"
    by (simp add: normalizePath_def)
  have ne: "''docs'' \<noteq> []" by simp
  have m: "map_of exampleFiles ''docs'' = Some (snd (exampleFiles ! 0))"
    by (simp add: exampleFiles_def)
  have f: "isFolder (snd (exampleFiles ! 0))"
    by (simp add: exampleFiles_def)
  have keys: "map fst (filter (\<lambda>kv. \<not> matchesFolder ''docs'' (fst kv)) exampleFiles) = [''docsx'']"
    by (simp add: exampleFiles_def matchesFolder_def startsWith_def)
  have other: "\<not> (''docsx'' = ''docs'' \<or> (\<exists>suffix. ''docsx'' = ''docs'' @ ''/'' @ suffix))"
    by simp
  have sub: "\<exists>suffix. ''docs/a'' = ''docs'' @ ''/'' @ suffix"
    by simp
  note th = deleteFile_folder_cascade [OF n ne m f]
  have a: "fst (deleteFile ''docs'' exampleFiles)"
    using th by (rule conjunct1)
  have b: "map fst (snd (deleteFile ''docs'' exampleFiles)) = [''docsx'']"
    using th keys by simp
  have c: "map_of (snd (deleteFile ''docs'' exampleFiles)) k =
             (if k = ''docs'' \<or> (\<exists>suffix. k = ''docs'' @ ''/'' @ suffix) then None
              else map_of exampleFiles k)" for k
    using th by blast
  have c1: "map_of (snd (deleteFile ''docs'' exampleFiles)) ''docs'' = None"
    using c [of "''docs''"] by simp
  have c2: "map_of (snd (deleteFile ''docs'' exampleFiles)) ''docs/a'' = None"
    using c [of "''docs/a''"] sub by simp
  have c3: "map_of (snd (deleteFile ''docs'' exampleFiles)) ''docsx'' = map_of exampleFiles ''docsx''"
    using c [of "''docsx''"] other by simp
  show ?thesis
    using n m f a b c1 c2 c3 by simp
qed

section \<open>Write, then read\<close>

lemma normalizePath_fixed:
  assumes "p \<noteq> []" and "hd p \<noteq> CHR ''/''" and "last p \<noteq> CHR ''/''"
  shows "normalizePath p = p"
proof -
  have "dropWhile (\<lambda>c. c = CHR ''/'') p = p"
    using assms(2) by (simp add: dropWhile_eq_self_iff)
  moreover have "dropWhile (\<lambda>c. c = CHR ''/'') (rev p) = rev p"
    using assms(1,3) by (simp add: dropWhile_eq_self_iff hd_rev)
  ultimately show ?thesis
    using assms(1) by (simp add: normalizePath_def)
qed

lemma last_dropWhile:
  assumes "dropWhile P xs \<noteq> []"
  shows "last (dropWhile P xs) = last xs"
proof -
  have "xs = takeWhile P xs @ dropWhile P xs" by simp
  then have "last xs = last (takeWhile P xs @ dropWhile P xs)" by simp
  also have "\<dots> = last (dropWhile P xs)" using assms by (rule last_appendR)
  finally show ?thesis by simp
qed

lemma normalizePath_hd:
  assumes "normalizePath p \<noteq> []"
  shows "hd (normalizePath p) \<noteq> CHR ''/''"
proof -
  define q where "q = dropWhile (\<lambda>c. c = CHR ''/'') p"
  define r where "r = dropWhile (\<lambda>c. c = CHR ''/'') (rev q)"
  have n: "normalizePath p = rev r"
    using assms unfolding q_def r_def normalizePath_def by (cases "p = []") simp_all
  have ne: "r \<noteq> []" using assms n by simp
  have qne: "q \<noteq> []"
  proof
    assume "q = []"
    then have "r = []" by (simp add: r_def)
    with ne show False by contradiction
  qed
  have "hd (rev r) = last r" using ne by (simp add: hd_rev)
  also have "\<dots> = last (rev q)" unfolding r_def using ne [unfolded r_def] by (rule last_dropWhile)
  also have "\<dots> = hd q" using qne by (simp add: last_rev)
  finally have "hd (normalizePath p) = hd q" using n by simp
  moreover have "hd q \<noteq> CHR ''/''"
    using qne hd_dropWhile [of "\<lambda>c. c = CHR ''/''" p] unfolding q_def by simp
  ultimately show ?thesis by simp
qed

lemma fullPathOf_normalized:
  assumes "filename \<noteq> []" and "CHR ''/'' \<notin> set filename"
    and "folder = [] \<or> normalizePath folder \<noteq> []"
  shows "normalizePath (fullPathOf filename folder) = fullPathOf filename folder"
proof (cases "folder = []")
  case True
  have "hd filename \<in> set filename" "last filename \<in> set filename"
    using assms(1) by simp_all
  then have "hd filename \<noteq> CHR ''/''" "last filename \<noteq> CHR ''/''"
    using assms(2) by auto
  then show ?thesis
    using True assms(1) by (simp add: fullPathOf_def normalizePath_fixed)
next
  case False
  then have ne: "normalizePath folder \<noteq> []" using assms(3) by simp
  let ?fp = "normalizePath folder @ ''/'' @ filename"
  have "last filename \<in> set filename" using assms(1) by simp
  then have "last filename \<noteq> CHR ''/''" using assms(2) by metis
  then have l: "last ?fp \<noteq> CHR ''/''" using assms(1) by simp
  have h: "hd ?fp \<noteq> CHR ''/''" using ne normalizePath_hd [OF ne] by simp
  have "normalizePath ?fp = ?fp"
    using h l by (intro normalizePath_fixed) simp_all
  then show ?thesis using False by (simp add: fullPathOf_def)
qed

lemma map_of_writeFile_fullPath:
  "map_of (writeFile filename cont folder now files) (fullPathOf filename folder) =
     Some \<lparr>name = filename, path = fullPathOf filename folder, content = cont,
           size_f = int (length cont), modified = now,
           created = (case map_of files (fullPathOf filename folder) of
                        None \<Rightarrow> now | Some e \<Rightarrow> if created e \<noteq> 0 then created e else now),
           isFolder = False\<rparr>"
  by (simp add: writeFile_def Let_def map_of_map_set)

lemma map_of_writeFile_other:
  "k \<noteq> fullPathOf filename folder \<Longrightarrow>
   map_of (writeFile filename cont folder now files) k = map_of files k"
  by (simp add: writeFile_def Let_def map_of_map_set)

text \<open>
  C7: for a valid triple, that is a non-empty file name without a slash and a folder that
  is the root (the empty string) or names one (it does not normalize to the empty
  string), the path writeFile stores the entry under is already normalized, and reading
  it gives back exactly the content written, whatever the store held before.
\<close>

theorem write_then_read:
  assumes "filename \<noteq> []" and "CHR ''/'' \<notin> set filename"
    and "folder = [] \<or> normalizePath folder \<noteq> []"
  shows "normalizePath (fullPathOf filename folder) = fullPathOf filename folder \<and>
         readFile (fullPathOf filename folder) (writeFile filename cont folder now files) =
           Some cont"
proof -
  have "normalizePath (fullPathOf filename folder) = fullPathOf filename folder"
    using assms by (rule fullPathOf_normalized)
  then show ?thesis
    by (simp add: readFile_def map_of_writeFile_fullPath)
qed

theorem write_then_read_witness:
  "readFile ''docs/a'' (writeFile ''a'' ''new text'' ''docs'' 40 exampleFiles) = Some ''new text'' \<and>
   readFile ''b.txt'' (writeFile ''b.txt'' ''root file'' [] 40 exampleFiles) = Some ''root file''"
proof -
  have n: "normalizePath ''docs'' = ''docs''" by (simp add: normalizePath_def)
  have p1: "fullPathOf ''a'' ''docs'' = ''docs/a''" by (simp add: fullPathOf_def n)
  have p2: "fullPathOf ''b.txt'' [] = ''b.txt''" by (simp add: fullPathOf_def)
  have v1: "''a'' \<noteq> []" "CHR ''/'' \<notin> set ''a''" "''docs'' = [] \<or> normalizePath ''docs'' \<noteq> []"
    by (simp_all add: n)
  have v2: "''b.txt'' \<noteq> []" "CHR ''/'' \<notin> set ''b.txt''" "[] = [] \<or> normalizePath [] \<noteq> []"
    by simp_all
  have "readFile (fullPathOf ''a'' ''docs'') (writeFile ''a'' ''new text'' ''docs'' 40 exampleFiles)
          = Some ''new text''"
    using write_then_read [OF v1] by (rule conjunct2)
  moreover have "readFile (fullPathOf ''b.txt'' []) (writeFile ''b.txt'' ''root file'' [] 40 exampleFiles)
          = Some ''root file''"
    using write_then_read [OF v2] by (rule conjunct2)
  ultimately show ?thesis
    unfolding p1 p2 by (rule conjI)
qed

section \<open>Writing a file over a folder\<close>

lemma keys_writeFile_existing:
  "map_of files (fullPathOf filename folder) = Some e \<Longrightarrow>
   map fst (writeFile filename cont folder now files) = map fst files"
  by (simp add: writeFile_def Let_def map_fst_map_set)

subsection \<open>Built stores are stamped\<close>

lemma set_map_set: "set (map_set k v kvs) \<subseteq> insert (k, v) (set kvs)"
  by (induction kvs) auto

lemma stamped_map_set:
  assumes "stamped kvs" and "created v \<noteq> 0"
  shows "stamped (map_set k v kvs)"
  using assms set_map_set [of k v kvs] unfolding stamped_def by fastforce

lemma stamped_filter: "stamped kvs \<Longrightarrow> stamped (filter P kvs)"
  by (simp add: stamped_def)

lemma stamped_map_delete: "stamped kvs \<Longrightarrow> stamped (map_delete k kvs)"
  by (simp add: map_delete_def stamped_filter)

lemma stamped_deleteOld: "stamped fs \<Longrightarrow> stamped (deleteOld ms fs)"
  unfolding deleteOld_def
  by (induction ms arbitrary: fs) (simp_all add: stamped_map_delete)

lemma stamped_foldl_set:
  assumes "stamped fs" and "\<forall>m \<in> set ms. created (vf m) \<noteq> 0"
  shows "stamped (foldl (\<lambda>fs m. map_set (kf m) (vf m) fs) fs ms)"
  using assms by (induction ms arbitrary: fs) (simp_all add: stamped_map_set)

lemma collectMoves_created:
  assumes "stamped files" and "m \<in> set (collectMoves s dest files)"
  shows "created (snd (snd m)) \<noteq> 0"
  using assms by (auto simp: collectMoves_def stamped_def)

lemma stamped_writeFile:
  assumes "stamped files" and "0 < now"
  shows "stamped (writeFile filename cont folder now files)"
  unfolding writeFile_def Let_def
  using assms by (intro stamped_map_set) (simp_all split: option.splits)

lemma stamped_createFolder:
  assumes "stamped files" and "0 < now"
    and "createFolder folderName parentFolder now files = Inr files'"
  shows "stamped files'"
proof -
  have "files' = map_set (fullPathOf folderName parentFolder)
                   \<lparr>name = folderName, path = fullPathOf folderName parentFolder, content = [],
                    size_f = 0, modified = now, created = now, isFolder = True\<rparr> files"
    using assms(3) by (simp add: createFolder_def Let_def split: if_splits)
  then show ?thesis
    using assms(1,2) by (simp add: stamped_map_set)
qed

lemma stamped_deleteFile:
  assumes "stamped files"
  shows "stamped (snd (deleteFile p files))"
proof -
  obtain P where "snd (deleteFile p files) = filter P files"
    using deleteFile_is_filter by blast
  then show ?thesis
    using assms by (simp add: stamped_filter)
qed

lemma stamped_moveFile:
  assumes "stamped files"
  shows "stamped (snd (moveFile sourcePath targetFolder files))"
proof (cases "map_of files (normalizePath sourcePath)")
  case None
  then show ?thesis using assms by (simp add: moveFile_def)
next
  case (Some sourceFile)
  then have src: "created sourceFile \<noteq> 0"
    using assms map_of_SomeD [of files "normalizePath sourcePath" sourceFile]
    by (fastforce simp: stamped_def)
  let ?dest = "moveTarget (normalizePath targetFolder) sourceFile"
  let ?ms = "collectMoves (normalizePath sourcePath) ?dest files"
  have folder: "stamped (foldl (\<lambda>fs m. map_set (fst (snd m)) ((snd (snd m))\<lparr>path := fst (snd m)\<rparr>) fs)
                  (deleteOld ?ms files) ?ms)"
    using assms collectMoves_created [OF assms]
    by (intro stamped_foldl_set stamped_deleteOld) simp_all
  have single: "stamped (map_set ?dest (sourceFile\<lparr>path := ?dest\<rparr>)
                  (map_delete (normalizePath sourcePath) files))"
    using assms src by (intro stamped_map_set stamped_map_delete) simp_all
  show ?thesis
    using Some assms folder single by (simp add: moveFile_def Let_def)
qed

lemma stamped_renameFile:
  assumes "stamped files"
  shows "stamped (snd (renameFile p newName files))"
proof (cases "map_of files (normalizePath p)")
  case None
  then show ?thesis using assms by (simp add: renameFile_def)
next
  case (Some entry)
  then have src: "created entry \<noteq> 0"
    using assms map_of_SomeD [of files "normalizePath p" entry]
    by (fastforce simp: stamped_def)
  let ?dest = "renameTarget (normalizePath p) newName"
  let ?ms = "collectMoves (normalizePath p) ?dest files"
  have folder: "stamped (foldl (\<lambda>fs m. map_set (fst (snd m))
                    ((snd (snd m))\<lparr>path := fst (snd m),
                       name := (if fst (snd m) = ?dest then newName else name (snd (snd m)))\<rparr>) fs)
                  (deleteOld ?ms files) ?ms)"
    using assms collectMoves_created [OF assms]
    by (intro stamped_foldl_set stamped_deleteOld) simp_all
  have single: "stamped (map_set ?dest (entry\<lparr>path := ?dest, name := newName\<rparr>)
                  (map_delete (normalizePath p) files))"
    using assms src by (intro stamped_map_set stamped_map_delete) simp_all
  show ?thesis
    using Some assms folder single by (simp add: renameFile_def Let_def)
qed

lemma built_stamped: "built files \<Longrightarrow> stamped files"
proof (induction rule: built.induct)
  case built_empty
  show ?case by (simp add: stamped_def)
qed (simp_all add: stamped_writeFile stamped_createFolder stamped_deleteFile stamped_moveFile
    stamped_renameFile)

lemma built_exampleFiles: "built exampleFiles"
proof -
  let ?docs = "\<lparr>name = ''docs'', path = ''docs'', content = [], size_f = 0,
                  modified = 10, created = 10, isFolder = True\<rparr>"
  let ?a = "\<lparr>name = ''a'', path = ''docs/a'', content = ''hi'', size_f = 2,
                  modified = 20, created = 20, isFolder = False\<rparr>"
  have c: "createFolder ''docs'' [] 10 [] = Inr [(''docs'', ?docs)]"
    by (simp add: createFolder_def fullPathOf_def map_has_def Let_def)
  have b1: "built [(''docs'', ?docs)]"
    using built_empty _ c by (rule built_folder) simp
  have w1: "writeFile ''a'' ''hi'' ''docs'' 20 [(''docs'', ?docs)] =
              [(''docs'', ?docs), (''docs/a'', ?a)]"
    by (simp add: writeFile_def fullPathOf_def normalizePath_def Let_def)
  have b2: "built [(''docs'', ?docs), (''docs/a'', ?a)]"
    using built_write [OF b1, of 20 "''a''" "''hi''" "''docs''"] by (simp add: w1)
  have w2: "writeFile ''docsx'' ''y'' [] 30 [(''docs'', ?docs), (''docs/a'', ?a)] = exampleFiles"
    by (simp add: writeFile_def fullPathOf_def Let_def exampleFiles_def)
  show ?thesis
    using built_write [OF b2, of 30 "''docsx''" "''y''" "[]"] by (simp add: w2)
qed

text \<open>
  C9: on every store the file system builds that holds a folder at the path writeFile
  computes, the call goes through and replaces the folder by a file entry: isFolder
  false, the new content and size, modified = now, and the folder's created stamp. The
  keys of the store and their order are as before and every other entry is unchanged, so
  what was stored below the folder stays at its old path.
\<close>

theorem writeFile_over_folder:
  assumes "built files"
    and "map_of files (fullPathOf filename folder) = Some e" and "isFolder e"
  shows "map_of (writeFile filename cont folder now files) (fullPathOf filename folder) =
           Some \<lparr>name = filename, path = fullPathOf filename folder, content = cont,
                 size_f = int (length cont), modified = now,
                 created = created e, isFolder = False\<rparr> \<and>
         map fst (writeFile filename cont folder now files) = map fst files \<and>
         (\<forall>k. k \<noteq> fullPathOf filename folder \<longrightarrow>
               map_of (writeFile filename cont folder now files) k = map_of files k)"
proof -
  have "stamped files" using assms(1) by (rule built_stamped)
  then have "created e \<noteq> 0"
    using map_of_SomeD [OF assms(2)] by (fastforce simp: stamped_def)
  then show ?thesis
    using assms(2)
    by (simp add: map_of_writeFile_fullPath map_of_writeFile_other keys_writeFile_existing)
qed

theorem writeFile_over_folder_witness:
  "built exampleFiles \<and>
   map_option isFolder (map_of exampleFiles (fullPathOf ''docs'' [])) = Some True \<and>
   map_of (writeFile ''docs'' ''text'' [] 50 exampleFiles) ''docs'' =
     Some \<lparr>name = ''docs'', path = ''docs'', content = ''text'', size_f = 4, modified = 50,
           created = 10, isFolder = False\<rparr> \<and>
   map fst (writeFile ''docs'' ''text'' [] 50 exampleFiles) = [''docs'', ''docs/a'', ''docsx''] \<and>
   map_of (writeFile ''docs'' ''text'' [] 50 exampleFiles) ''docs/a'' = map_of exampleFiles ''docs/a''"
proof -
  have p: "fullPathOf ''docs'' [] = ''docs''" by (simp add: fullPathOf_def)
  have m: "map_of exampleFiles (fullPathOf ''docs'' []) = Some (snd (exampleFiles ! 0))"
    by (simp add: p exampleFiles_def)
  have f: "isFolder (snd (exampleFiles ! 0))" "created (snd (exampleFiles ! 0)) = 10"
    by (simp_all add: exampleFiles_def)
  have k: "map fst exampleFiles = [''docs'', ''docs/a'', ''docsx'']"
    by (simp add: exampleFiles_def)
  have d: "''docs/a'' \<noteq> fullPathOf ''docs'' []" by (simp add: p)
  note th = writeFile_over_folder [OF built_exampleFiles m f(1), of "''text''" 50]
  have a: "map_of (writeFile ''docs'' ''text'' [] 50 exampleFiles) ''docs'' =
     Some \<lparr>name = ''docs'', path = ''docs'', content = ''text'', size_f = 4, modified = 50,
           created = 10, isFolder = False\<rparr>"
    using th [THEN conjunct1] f(2) by (simp add: p)
  have b: "map fst (writeFile ''docs'' ''text'' [] 50 exampleFiles) = [''docs'', ''docs/a'', ''docsx'']"
    using th [THEN conjunct2, THEN conjunct1] k by simp
  have c: "map_of (writeFile ''docs'' ''text'' [] 50 exampleFiles) ''docs/a'' = map_of exampleFiles ''docs/a''"
    using th [THEN conjunct2, THEN conjunct2] d by blast
  show ?thesis
    using built_exampleFiles m f(1) a b c by simp
qed

section \<open>How failures are reported\<close>

text \<open>
  C5, as stated, fails: createFolder on a path that has an entry does not return a value,
  it throws (\<open>Inl\<close> in the model).
\<close>

theorem createFolder_existing_counterexample:
  "map_has exampleFiles (fullPathOf ''docs'' []) \<and>
   createFolder ''docs'' [] 50 exampleFiles = Inl (Error ''Folder already exists'')"
  by (simp add: createFolder_def fullPathOf_def map_has_def exampleFiles_def)

lemma deleteFile_not_found:
  assumes "\<not> map_has files (normalizePath p)"
    and "findByIteration p (normalizePath p) files = None"
  shows "deleteFile p files = (False, files)"
  using assms by (simp add: deleteFile_def)

lemma moveFile_failures:
  "map_of files (normalizePath sourcePath) = None \<Longrightarrow>
     moveFile sourcePath targetFolder files = (False, files)"
  "map_of files (normalizePath sourcePath) = Some sourceFile \<Longrightarrow>
   map_has files (moveTarget (normalizePath targetFolder) sourceFile) \<Longrightarrow>
     moveFile sourcePath targetFolder files = (False, files)"
  by (simp_all add: moveFile_def)

lemma renameFile_failures:
  "map_of files (normalizePath p) = None \<Longrightarrow> renameFile p newName files = (False, files)"
  "map_of files (normalizePath p) = Some file \<Longrightarrow>
   map_has files (renameTarget (normalizePath p) newName) \<Longrightarrow>
     renameFile p newName files = (False, files)"
  by (simp_all add: renameFile_def)

lemma readFile_folder:
  "map_of files (normalizePath p) = Some file \<Longrightarrow> isFolder file \<Longrightarrow> readFile p files = None"
  by (simp add: readFile_def)

lemma readFile_not_found:
  "map_of files (normalizePath p) = None \<Longrightarrow>
   findByIteration p (normalizePath p) files = None \<Longrightarrow> readFile p files = None"
  by (simp add: readFile_def)

text \<open>
  C5, amended: createFolder throws Error("Folder already exists") exactly when the path
  has an entry, and otherwise stores the folder. The other operations report failure by
  their result and leave the store as it was: deleteFile returns false and readFile null
  when no key resolves, readFile returns null for a folder, moveFile and renameFile return
  false when the source has no entry or the destination has one.
\<close>

theorem vfs_failure_signals:
  "(map_has files (fullPathOf folderName parentFolder) \<longrightarrow>
      createFolder folderName parentFolder now files = Inl (Error ''Folder already exists'')) \<and>
   (\<not> map_has files (fullPathOf folderName parentFolder) \<longrightarrow>
      (\<exists>files'. createFolder folderName parentFolder now files = Inr files' \<and>
         map_of files' (fullPathOf folderName parentFolder) =
           Some \<lparr>name = folderName, path = fullPathOf folderName parentFolder, content = [],
                 size_f = 0, modified = now, created = now, isFolder = True\<rparr>)) \<and>
   (\<not> map_has files (normalizePath p) \<and> findByIteration p (normalizePath p) files = None \<longrightarrow>
      deleteFile p files = (False, files) \<and> readFile p files = None) \<and>
   (\<forall>file. map_of files (normalizePath p) = Some file \<and> isFolder file \<longrightarrow>
      readFile p files = None) \<and>
   (map_of files (normalizePath p) = None \<longrightarrow>
      moveFile p targetFolder files = (False, files) \<and>
      renameFile p newName files = (False, files)) \<and>
   (\<forall>file. map_of files (normalizePath p) = Some file \<longrightarrow>
      (map_has files (moveTarget (normalizePath targetFolder) file) \<longrightarrow>
         moveFile p targetFolder files = (False, files)) \<and>
      (map_has files (renameTarget (normalizePath p) newName) \<longrightarrow>
         renameFile p newName files = (False, files)))"
proof -
  have c1: "map_has files (fullPathOf folderName parentFolder) \<longrightarrow>
      createFolder folderName parentFolder now files = Inl (Error ''Folder already exists'')"
    by (simp add: createFolder_def)
  have c2: "\<not> map_has files (fullPathOf folderName parentFolder) \<longrightarrow>
      (\<exists>files'. createFolder folderName parentFolder now files = Inr files' \<and>
         map_of files' (fullPathOf folderName parentFolder) =
           Some \<lparr>name = folderName, path = fullPathOf folderName parentFolder, content = [],
                 size_f = 0, modified = now, created = now, isFolder = True\<rparr>)"
    by (simp add: createFolder_def Let_def map_of_map_set)
  have d: "\<not> map_has files (normalizePath p) \<and> findByIteration p (normalizePath p) files = None \<longrightarrow>
      deleteFile p files = (False, files) \<and> readFile p files = None"
    using deleteFile_not_found [of files p] readFile_not_found [of files p]
    by (simp add: map_has_def)
  show ?thesis
    using c1 c2 d readFile_folder [of files p] moveFile_failures [of files p]
      renameFile_failures [of files p]
    by blast
qed

theorem vfs_failure_signals_witness:
  "map_has exampleFiles (fullPathOf ''docs'' []) \<and>
   createFolder ''docs'' [] 50 exampleFiles = Inl (Error ''Folder already exists'') \<and>
   map_of exampleFiles (normalizePath ''nope'') = None \<and>
   moveFile ''nope'' ''docs'' exampleFiles = (False, exampleFiles) \<and>
   renameFile ''nope'' ''new'' exampleFiles = (False, exampleFiles)"
proof -
  have h: "map_has exampleFiles (fullPathOf ''docs'' [])"
    by (simp add: fullPathOf_def map_has_def exampleFiles_def)
  have n: "map_of exampleFiles (normalizePath ''nope'') = None"
    by (simp add: normalizePath_def exampleFiles_def)
  show ?thesis
    using h n vfs_failure_signals [of exampleFiles "''docs''" "[]" 50 "''nope''" "''docs''" "''new''"]
    by blast
qed

section \<open>Cascading move and rename\<close>

lemma foldl_map_set_other:
  assumes "\<forall>m \<in> set ms. kf m \<noteq> k"
  shows "map_of (foldl (\<lambda>fs m. map_set (kf m) (vf m) fs) fs ms) k = map_of fs k"
  using assms by (induction ms arbitrary: fs) (auto simp: map_of_map_set)

lemma foldl_map_set_hit:
  assumes "\<exists>m \<in> set ms. kf m = k" and "\<forall>m \<in> set ms. kf m = k \<longrightarrow> vf m = v"
  shows "map_of (foldl (\<lambda>fs m. map_set (kf m) (vf m) fs) fs ms) k = Some v"
  using assms
proof (induction ms arbitrary: fs)
  case Nil
  then show ?case by simp
next
  case (Cons m ms)
  show ?case
  proof (cases "\<exists>m' \<in> set ms. kf m' = k")
    case True
    then show ?thesis using Cons by simp
  next
    case False
    then have none: "\<forall>m' \<in> set ms. kf m' \<noteq> k" by simp
    have "kf m = k" using Cons.prems(1) False by auto
    moreover have "vf m = v" using Cons.prems(2) \<open>kf m = k\<close> by simp
    ultimately show ?thesis
      using foldl_map_set_other [OF none, of vf "map_set (kf m) (vf m) fs"]
      by (simp add: map_of_map_set)
  qed
qed

lemma deleteOld_eq:
  "deleteOld (collectMoves s dest files) files =
     filter (\<lambda>kv. \<not> matchesFolder s (fst kv)) files"
proof -
  have "deleteOld (collectMoves s dest files) files =
          foldl (\<lambda>fs k. map_delete k fs) files (map fst (collectMoves s dest files))"
    unfolding deleteOld_def by (simp add: foldl_map)
  also have "map fst (collectMoves s dest files) =
          map fst (filter (\<lambda>kv. matchesFolder s (fst kv)) files)"
    by (simp add: collectMoves_def comp_def)
  finally show ?thesis by (simp add: delete_matching_keys)
qed

lemma newFilePath_below:
  assumes "rel \<noteq> []"
  shows "newFilePath s dest (s @ ''/'' @ rel) = dest @ ''/'' @ rel"
  using assms by (simp add: newFilePath_def)

lemma newFilePath_matches: "matchesFolder dest (newFilePath s dest k)"
  by (simp add: newFilePath_def matchesFolder_iff Let_def)

lemma newFilePath_inj:
  assumes "matchesFolder s old" and "rel \<noteq> []"
    and "newFilePath s dest old = dest @ ''/'' @ rel"
  shows "old = s @ ''/'' @ rel"
proof (cases "old = s")
  case True
  then show ?thesis using assms(3) by (simp add: newFilePath_def)
next
  case False
  then obtain t where t: "old = s @ ''/'' @ t"
    using assms(1) by (auto simp: matchesFolder_iff)
  then have "newFilePath s dest old = (if t \<noteq> [] then dest @ ''/'' @ t else dest)"
    by (simp add: newFilePath_def)
  then show ?thesis using assms(3) t by (simp split: if_splits)
qed

lemma wf_storage_unique:
  assumes "wf_storage files" and "map_of files k = Some v" and "(k, v') \<in> set files"
  shows "v' = v"
  using assms by (simp add: wf_storage_def)

text \<open>The store after the two passes over toMove, for any way of writing the new value.\<close>

lemma rekey_new_key:
  assumes wf: "wf_storage files"
    and d: "map_of files (s @ ''/'' @ rel) = Some d" and rel: "rel \<noteq> []"
  shows "map_of (foldl (\<lambda>fs m. map_set (fst (snd m)) (vf m) fs)
                   (deleteOld (collectMoves s dest files) files) (collectMoves s dest files))
           (dest @ ''/'' @ rel)
         = Some (vf (s @ ''/'' @ rel, dest @ ''/'' @ rel, d))"
proof (rule foldl_map_set_hit)
  have "(s @ ''/'' @ rel, d) \<in> set files" using d by (rule map_of_SomeD)
  moreover have "matchesFolder s (s @ ''/'' @ rel)" by (auto simp: matchesFolder_iff)
  ultimately have "(s @ ''/'' @ rel, dest @ ''/'' @ rel, d) \<in> set (collectMoves s dest files)"
    using newFilePath_below [OF rel, of s dest] by (force simp: collectMoves_def)
  then show "\<exists>m \<in> set (collectMoves s dest files). fst (snd m) = dest @ ''/'' @ rel"
    by force
next
  show "\<forall>m \<in> set (collectMoves s dest files).
          fst (snd m) = dest @ ''/'' @ rel \<longrightarrow> vf m = vf (s @ ''/'' @ rel, dest @ ''/'' @ rel, d)"
  proof (intro ballI impI)
    fix m assume m: "m \<in> set (collectMoves s dest files)" and k: "fst (snd m) = dest @ ''/'' @ rel"
    from m obtain old md where kv: "(old, md) \<in> set files" and mf: "matchesFolder s old"
      and meq: "m = (old, newFilePath s dest old, md)"
      by (auto simp: collectMoves_def)
    have "old = s @ ''/'' @ rel"
      using mf rel k meq by (intro newFilePath_inj [of s old rel dest]) simp_all
    moreover from this have "md = d" using wf d kv wf_storage_unique by fastforce
    ultimately show "vf m = vf (s @ ''/'' @ rel, dest @ ''/'' @ rel, d)"
      using meq k by simp
  qed
qed

lemma rekey_old_key:
  assumes "matchesFolder s k" and "\<not> matchesFolder dest k"
  shows "map_of (foldl (\<lambda>fs m. map_set (fst (snd m)) (vf m) fs)
                   (deleteOld (collectMoves s dest files) files) (collectMoves s dest files)) k
         = None"
proof -
  have "\<forall>m \<in> set (collectMoves s dest files). fst (snd m) \<noteq> k"
    using assms(2) newFilePath_matches [of dest s] by (auto simp: collectMoves_def)
  then have "map_of (foldl (\<lambda>fs m. map_set (fst (snd m)) (vf m) fs)
                   (deleteOld (collectMoves s dest files) files) (collectMoves s dest files)) k
             = map_of (deleteOld (collectMoves s dest files) files) k"
    by (rule foldl_map_set_other)
  also have "\<dots> = None"
    using assms(1) map_of_filter_keys [of "\<lambda>k. \<not> matchesFolder s k" files k]
    by (simp add: deleteOld_eq)
  finally show ?thesis .
qed

lemma moveFile_folder:
  assumes "map_of files (normalizePath sourcePath) = Some src" and "isFolder src"
    and "moveFile sourcePath targetFolder files = (True, files')"
  shows "files' =
           foldl (\<lambda>fs m. map_set (fst (snd m)) ((snd (snd m))\<lparr>path := fst (snd m)\<rparr>) fs)
             (deleteOld (collectMoves (normalizePath sourcePath)
                (moveTarget (normalizePath targetFolder) src) files) files)
             (collectMoves (normalizePath sourcePath)
                (moveTarget (normalizePath targetFolder) src) files)"
  using assms by (simp add: moveFile_def Let_def split: if_splits)

lemma renameFile_folder:
  assumes "map_of files (normalizePath p) = Some src" and "isFolder src"
    and "renameFile p newName files = (True, files')"
  shows "files' =
           foldl (\<lambda>fs m. map_set (fst (snd m))
                    ((snd (snd m))\<lparr>path := fst (snd m),
                       name := (if fst (snd m) = renameTarget (normalizePath p) newName
                                then newName else name (snd (snd m)))\<rparr>) fs)
             (deleteOld (collectMoves (normalizePath p)
                (renameTarget (normalizePath p) newName) files) files)
             (collectMoves (normalizePath p) (renameTarget (normalizePath p) newName) files)"
  using assms by (simp add: renameFile_def Let_def split: if_splits)

text \<open>
  C2: let the store (a Map: its keys are distinct) hold a folder at the normalized source
  path s and an entry d at s/rel, rel not empty. If moveFile (renameFile), called with a
  path that normalizes to s, returns true, then the new store holds at dest/rel the entry
  d with only its path field set to dest/rel (content, name, size and stamps as before),
  where dest is the destination moveFile (renameFile) computed for the folder; and the
  old key s/rel is gone unless it lies at or below dest itself.
\<close>

theorem move_rename_rekey_descendants:
  assumes "wf_storage files"
    and "map_of files s = Some src" and "isFolder src"
    and "map_of files (s @ ''/'' @ rel) = Some d" and "rel \<noteq> []"
  shows "(normalizePath sourcePath = s \<and> moveFile sourcePath targetFolder files = (True, files')
          \<longrightarrow>
            map_of files' (moveTarget (normalizePath targetFolder) src @ ''/'' @ rel) =
              Some (d\<lparr>path := moveTarget (normalizePath targetFolder) src @ ''/'' @ rel\<rparr>) \<and>
            (\<not> matchesFolder (moveTarget (normalizePath targetFolder) src) (s @ ''/'' @ rel)
               \<longrightarrow> map_of files' (s @ ''/'' @ rel) = None)) \<and>
         (normalizePath p = s \<and> renameFile p newName files = (True, files'')
          \<longrightarrow>
            map_of files'' (renameTarget s newName @ ''/'' @ rel) =
              Some (d\<lparr>path := renameTarget s newName @ ''/'' @ rel\<rparr>) \<and>
            (\<not> matchesFolder (renameTarget s newName) (s @ ''/'' @ rel)
               \<longrightarrow> map_of files'' (s @ ''/'' @ rel) = None))"
proof (intro conjI impI)
  have below: "matchesFolder s (s @ ''/'' @ rel)"
    by (auto simp: matchesFolder_iff)
  {
    assume a: "normalizePath sourcePath = s \<and> moveFile sourcePath targetFolder files = (True, files')"
    let ?dest = "moveTarget (normalizePath targetFolder) src"
    have f: "files' =
           foldl (\<lambda>fs m. map_set (fst (snd m)) ((snd (snd m))\<lparr>path := fst (snd m)\<rparr>) fs)
             (deleteOld (collectMoves s ?dest files) files) (collectMoves s ?dest files)"
      using moveFile_folder [of files sourcePath src targetFolder files'] a assms(2,3) by simp
    show "map_of files' (?dest @ ''/'' @ rel) = Some (d\<lparr>path := ?dest @ ''/'' @ rel\<rparr>)"
      unfolding f
      using rekey_new_key [OF assms(1,4,5),
          of "\<lambda>m. (snd (snd m))\<lparr>path := fst (snd m)\<rparr>" ?dest]
      by simp
    {
      assume "\<not> matchesFolder ?dest (s @ ''/'' @ rel)"
      then show "map_of files' (s @ ''/'' @ rel) = None"
        unfolding f using below by (intro rekey_old_key)
    }
  }
  {
    assume a: "normalizePath p = s \<and> renameFile p newName files = (True, files'')"
    let ?dest = "renameTarget s newName"
    let ?vf = "\<lambda>m. (snd (snd m))\<lparr>path := fst (snd m),
                       name := (if fst (snd m) = ?dest then newName else name (snd (snd m)))\<rparr>"
    have f: "files'' = foldl (\<lambda>fs m. map_set (fst (snd m)) (?vf m) fs)
             (deleteOld (collectMoves s ?dest files) files) (collectMoves s ?dest files)"
      using renameFile_folder [of files p src newName files''] a assms(2,3) by simp
    have ne: "?dest @ ''/'' @ rel \<noteq> ?dest" by simp
    show "map_of files'' (?dest @ ''/'' @ rel) = Some (d\<lparr>path := ?dest @ ''/'' @ rel\<rparr>)"
      unfolding f
      using rekey_new_key [OF assms(1,4,5), of ?vf ?dest] ne
      by simp
    {
      assume "\<not> matchesFolder ?dest (s @ ''/'' @ rel)"
      then show "map_of files'' (s @ ''/'' @ rel) = None"
        unfolding f using below by (intro rekey_old_key)
    }
  }
qed

lemma ex_move: "fst (moveFile ''docs'' ''arch'' exampleFiles)"
  by (simp add: moveFile_def Let_def normalizePath_def moveTarget_def map_has_def
      collectMoves_def deleteOld_def matchesFolder_def startsWith_def newFilePath_def
      map_delete_def exampleFiles_def)

lemma ex_rename: "fst (renameFile ''docs'' ''papers'' exampleFiles)"
  by (simp add: renameFile_def Let_def normalizePath_def renameTarget_def map_has_def
      collectMoves_def deleteOld_def matchesFolder_def startsWith_def newFilePath_def
      map_delete_def exampleFiles_def)

theorem move_rename_rekey_descendants_witness:
  "wf_storage exampleFiles \<and>
   fst (moveFile ''docs'' ''arch'' exampleFiles) \<and>
   map_of (snd (moveFile ''docs'' ''arch'' exampleFiles)) ''arch/docs/a'' =
     Some \<lparr>name = ''a'', path = ''arch/docs/a'', content = ''hi'', size_f = 2,
           modified = 20, created = 20, isFolder = False\<rparr> \<and>
   map_of (snd (moveFile ''docs'' ''arch'' exampleFiles)) ''docs/a'' = None \<and>
   fst (renameFile ''docs'' ''papers'' exampleFiles) \<and>
   map_of (snd (renameFile ''docs'' ''papers'' exampleFiles)) ''papers/a'' =
     Some \<lparr>name = ''a'', path = ''papers/a'', content = ''hi'', size_f = 2,
           modified = 20, created = 20, isFolder = False\<rparr> \<and>
   map_of (snd (renameFile ''docs'' ''papers'' exampleFiles)) ''docs/a'' = None"
proof -
  let ?src = "\<lparr>name = ''docs'', path = ''docs'', content = [], size_f = 0,
                  modified = 10, created = 10, isFolder = True\<rparr>"
  let ?d = "\<lparr>name = ''a'', path = ''docs/a'', content = ''hi'', size_f = 2,
                  modified = 20, created = 20, isFolder = False\<rparr>"
  have wf: "wf_storage exampleFiles"
    by (simp add: wf_storage_def exampleFiles_def)
  have s: "map_of exampleFiles ''docs'' = Some ?src"
    by (simp add: exampleFiles_def)
  have f: "isFolder ?src" by simp
  have d: "map_of exampleFiles (''docs'' @ ''/'' @ ''a'') = Some ?d"
    by (simp add: exampleFiles_def)
  have r: "''a'' \<noteq> []" by simp
  have n: "normalizePath ''docs'' = ''docs''" "normalizePath ''arch'' = ''arch''"
    by (simp_all add: normalizePath_def)
  have mv: "moveFile ''docs'' ''arch'' exampleFiles =
              (True, snd (moveFile ''docs'' ''arch'' exampleFiles))"
    using ex_move by (simp add: prod_eq_iff)
  have rn: "renameFile ''docs'' ''papers'' exampleFiles =
              (True, snd (renameFile ''docs'' ''papers'' exampleFiles))"
    using ex_rename by (simp add: prod_eq_iff)
  have t1: "moveTarget (normalizePath ''arch'') ?src = ''arch/docs''"
    by (simp add: moveTarget_def n)
  have t2: "renameTarget ''docs'' ''papers'' = ''papers''"
    by (simp add: renameTarget_def)
  have o1: "\<not> matchesFolder ''arch/docs'' (''docs'' @ ''/'' @ ''a'')"
    by (simp add: matchesFolder_def startsWith_def)
  have o2: "\<not> matchesFolder ''papers'' (''docs'' @ ''/'' @ ''a'')"
    by (simp add: matchesFolder_def startsWith_def)
  note th = move_rename_rekey_descendants [OF wf s f d r,
      of "''docs''" "''arch''" "snd (moveFile ''docs'' ''arch'' exampleFiles)"
         "''docs''" "''papers''" "snd (renameFile ''docs'' ''papers'' exampleFiles)"]
  have m1: "map_of (snd (moveFile ''docs'' ''arch'' exampleFiles)) (''arch/docs'' @ ''/'' @ ''a'') =
              Some (?d\<lparr>path := ''arch/docs'' @ ''/'' @ ''a''\<rparr>)"
    and m2: "map_of (snd (moveFile ''docs'' ''arch'' exampleFiles)) (''docs'' @ ''/'' @ ''a'') = None"
    using th [THEN conjunct1] n(1) mv o1 unfolding t1 by blast+
  have r1: "map_of (snd (renameFile ''docs'' ''papers'' exampleFiles)) (''papers'' @ ''/'' @ ''a'') =
              Some (?d\<lparr>path := ''papers'' @ ''/'' @ ''a''\<rparr>)"
    and r2: "map_of (snd (renameFile ''docs'' ''papers'' exampleFiles)) (''docs'' @ ''/'' @ ''a'') = None"
    using th [THEN conjunct2] n(1) rn o2 unfolding t2 by blast+
  show ?thesis
    using wf ex_move ex_rename m1 m2 r1 r2 by simp
qed

end
